theory Spec2Isabelle
  imports Complex_Main "HOL-Library.Char_ord" "HOL-Library.List_Lexorder"
begin

section \<open>Data model\<close>

text \<open>
  The notebook \<^verbatim>\<open>project5.ipynb\<close> is a linear script over a table of tracks. A row of
  the table carries the raw lyric text and the explicit flag. Python strings are modelled
  as \<^typ>\<open>string\<close> restricted to ASCII; Python dictionaries are association lists in
  insertion order; every exception the script can raise is a value of \<open>py_error\<close>.
\<close>

record track =
  lyrics :: string
  explicit :: bool

datatype py_error = ValueError | IndexError | KeyError | TypeError
  | ZeroDivisionError | UnboundLocalError

type_synonym 'v dict = "(string \<times> 'v) list"

text \<open>\<^verbatim>\<open>d[k] = v\<close>: an existing key keeps its position, a new key goes last.\<close>

fun setitem :: "'v dict \<Rightarrow> string \<Rightarrow> 'v \<Rightarrow> 'v dict" where
  "setitem [] k v = [(k, v)]"
| "setitem (p # ps) k v = (if fst p = k then (k, v) # ps else p # setitem ps k v)"

text \<open>\<^verbatim>\<open>d[k]\<close> raises \<^verbatim>\<open>KeyError\<close> on a missing key.\<close>

definition getitem :: "'v dict \<Rightarrow> string \<Rightarrow> py_error + 'v" where
  "getitem d k = (case map_of d k of None \<Rightarrow> Inl KeyError | Some v \<Rightarrow> Inr v)"

definition keys :: "'v dict \<Rightarrow> string list" where
  "keys d = map fst d"

section \<open>String operations\<close>

definition SPACE :: char where
  "SPACE = CHR 0x20"

text \<open>\<^verbatim>\<open>str.lower\<close> on ASCII text.\<close>

definition char_lower :: "char \<Rightarrow> char" where
  "char_lower c =
     (let n = (of_char c :: nat) in if 65 \<le> n \<and> n \<le> 90 then char_of (n + 32) else c)"

definition lower :: "string \<Rightarrow> string" where
  "lower s = map char_lower s"

text \<open>
  Splitting at every character that satisfies \<open>sep\<close>: one more token than there are
  separators, empty tokens included. \<^verbatim>\<open>s.split(" ")\<close> is the instance where the
  separator is the space character.
\<close>

fun split_at :: "(char \<Rightarrow> bool) \<Rightarrow> string \<Rightarrow> string list" where
  "split_at sep [] = [[]]"
| "split_at sep (c # cs) =
     (if sep c then [] # split_at sep cs
      else (case split_at sep cs of [] \<Rightarrow> [[c]] | t # ts \<Rightarrow> (c # t) # ts))"

definition split_space :: "string \<Rightarrow> string list" where
  "split_space s = split_at (\<lambda>c. c = SPACE) s"

text \<open>\<^verbatim>\<open>sep.join(xs)\<close>.\<close>

fun join :: "string \<Rightarrow> string list \<Rightarrow> string" where
  "join sep [] = []"
| "join sep [x] = x"
| "join sep (x # y # ys) = x @ sep @ join sep (y # ys)"

section \<open>Text normalizer: \<^verbatim>\<open>stemLyrics\<close>\<close>

text \<open>
  \<^verbatim>\<open>
  def stemLyrics(stop_words):
      stemmedLyricsList = []
      for lyrics in tracks['lyrics']:
          lyricsList = lyrics.split(" ")
          stemmedLyrics = [stemmer.stem(word) for word in lyricsList
                           if word.lower() not in stop_words]
          stemmedLyrics = ' '.join(stemmedLyrics)
          stemmedLyricsList.append(stemmedLyrics)
      return stemmedLyricsList
  \<close>
  The stemmer is an object of the \<^verbatim>\<open>nltk\<close> library and is a parameter \<open>stem\<close> of the
  model, as are the global table \<open>tracks\<close> and the stop-word list.
\<close>

definition stem_one :: "(string \<Rightarrow> string) \<Rightarrow> string list \<Rightarrow> string \<Rightarrow> string" where
  "stem_one stem stop_words lyr =
     (let lyricsList = split_space lyr;
          stemmedLyrics = [stem word. word \<leftarrow> lyricsList, lower word \<notin> set stop_words]
      in join [SPACE] stemmedLyrics)"

fun stemLyrics_loop ::
  "(string \<Rightarrow> string) \<Rightarrow> string list \<Rightarrow> string list \<Rightarrow> string list \<Rightarrow> string list" where
  "stemLyrics_loop stem stop_words [] stemmedLyricsList = stemmedLyricsList"
| "stemLyrics_loop stem stop_words (lyr # rest) stemmedLyricsList =
     stemLyrics_loop stem stop_words rest (stemmedLyricsList @ [stem_one stem stop_words lyr])"

definition stemLyrics :: "(string \<Rightarrow> string) \<Rightarrow> track list \<Rightarrow> string list \<Rightarrow> string list" where
  "stemLyrics stem tracks stop_words = stemLyrics_loop stem stop_words (map lyrics tracks) []"

text \<open>The table with its lyric column replaced, row by row.\<close>

definition with_lyrics :: "track list \<Rightarrow> string list \<Rightarrow> track list" where
  "with_lyrics tracks column = map2 (\<lambda>t s. t\<lparr>lyrics := s\<rparr>) tracks column"

subsection \<open>The normalizer as the specification words it\<close>

text \<open>
  The specification splits on whitespace: tokens are the maximal runs of non-whitespace
  characters, so no token is empty.
\<close>

definition is_whitespace :: "char \<Rightarrow> bool" where
  "is_whitespace c = (c \<in> set [CHR 0x20, CHR 0x09, CHR 0x0A, CHR 0x0B, CHR 0x0C, CHR 0x0D])"

definition split_whitespace :: "string \<Rightarrow> string list" where
  "split_whitespace s = filter (\<lambda>t. t \<noteq> []) (split_at is_whitespace s)"

definition normalize_spec :: "(string \<Rightarrow> string) \<Rightarrow> string list \<Rightarrow> string \<Rightarrow> string" where
  "normalize_spec stem stop_words s =
     join [SPACE] (map stem (filter (\<lambda>t. lower t \<notin> set stop_words) (split_whitespace s)))"

section \<open>Vectorizer: \<^verbatim>\<open>CountVectorizer().fit_transform\<close>\<close>

text \<open>
  The notebook builds \<^verbatim>\<open>CountVectorizer()\<close> with no argument, so the defaults of
  scikit-learn decide the tokens: \<^verbatim>\<open>lowercase=True\<close> and
  \<^verbatim>\<open>token_pattern=r"(?u)\b\w\w+\b"\<close>, that is, the document is lower-cased and its
  tokens are the maximal runs of word characters that are at least two characters long.
  The vocabulary is the sorted list of distinct tokens, no token is pruned
  (\<^verbatim>\<open>min_df=1\<close>, \<^verbatim>\<open>max_df=1.0\<close>), and an empty vocabulary raises
  \<^verbatim>\<open>ValueError("empty vocabulary; perhaps the documents only contain stop words")\<close>.
\<close>

definition word_char :: "char \<Rightarrow> bool" where
  "word_char c =
     (let n = (of_char c :: nat)
      in (48 \<le> n \<and> n \<le> 57) \<or> (65 \<le> n \<and> n \<le> 90) \<or> n = 95 \<or> (97 \<le> n \<and> n \<le> 122))"

definition analyzer :: "string \<Rightarrow> string list" where
  "analyzer doc =
     filter (\<lambda>t. 2 \<le> length t) (split_at (\<lambda>c. \<not> word_char c) (lower doc))"

definition fit_transform :: "string list \<Rightarrow> py_error + (string list \<times> nat list list)" where
  "fit_transform raw_documents =
     (let analyzed = map analyzer raw_documents;
          vocabulary = sort (remdups (concat analyzed))
      in if vocabulary = [] then Inl ValueError
         else Inr (vocabulary, map (\<lambda>toks. map (count_list toks) vocabulary) analyzed))"

section \<open>Featureset builder (cell 7)\<close>

text \<open>
  \<^verbatim>\<open>
  featuresets = []
  for i in range(len(y)):
      featureX = {}
      for j in range(len(words)):
          featureX[words[j]] = (tracks['vectorized_lyrics'].iloc[i])[j]
      featuresets.append((featureX, y.iloc[i]))
  \<close>
  An index outside a sequence raises \<^verbatim>\<open>IndexError\<close>.
\<close>

type_synonym featureset = "nat dict \<times> bool"

fun featureX_loop ::
  "string list \<Rightarrow> nat list \<Rightarrow> nat list \<Rightarrow> nat dict \<Rightarrow> py_error + nat dict" where
  "featureX_loop words row [] featureX = Inr featureX"
| "featureX_loop words row (j # js) featureX =
     (if j < length words \<and> j < length row
      then featureX_loop words row js (setitem featureX (words ! j) (row ! j))
      else Inl IndexError)"

fun featuresets_loop ::
  "string list \<Rightarrow> nat list list \<Rightarrow> bool list \<Rightarrow> nat list \<Rightarrow> featureset list
     \<Rightarrow> py_error + featureset list" where
  "featuresets_loop words vec y [] featuresets = Inr featuresets"
| "featuresets_loop words vec y (i # is) featuresets =
     (if i < length vec \<and> i < length y
      then (case featureX_loop words (vec ! i) [0..<length words] [] of
              Inl e \<Rightarrow> Inl e
            | Inr featureX \<Rightarrow>
                featuresets_loop words vec y is (featuresets @ [(featureX, y ! i)]))
      else Inl IndexError)"

definition build_featuresets ::
  "string list \<Rightarrow> nat list list \<Rightarrow> bool list \<Rightarrow> py_error + featureset list" where
  "build_featuresets words vec y = featuresets_loop words vec y [0..<length y] []"

text \<open>
  Cells 5 and 7 together, from the table to the featuresets: the stemmed lyrics and the
  labels are columns of the same table, the vectorizer runs first and the loop after it.
\<close>

definition prepare ::
  "(string \<Rightarrow> string) \<Rightarrow> string list \<Rightarrow> track list
     \<Rightarrow> py_error + (string list \<times> nat list list \<times> featureset list)" where
  "prepare stem stop_words tracks =
     (let stemmed_lyrics = stemLyrics stem tracks stop_words;
          y = map explicit tracks
      in case fit_transform stemmed_lyrics of
           Inl e \<Rightarrow> Inl e
         | Inr (words, vec) \<Rightarrow>
             (case build_featuresets words vec y of
                Inl e \<Rightarrow> Inl e
              | Inr featuresets \<Rightarrow> Inr (words, vec, featuresets)))"

section \<open>Feature selector (cell 13)\<close>

text \<open>
  \<^verbatim>\<open>
  informative_featuresets = []
  for (featureDict,isExplicit) in featuresets:
      newFeatureDict = {}
      for word in featureDict.keys():
          if word in most_informative_features:
              newFeatureDict[word] = featureDict[word]
      informative_featuresets.append((newFeatureDict,isExplicit))
  \<close>
  \<open>most_informative_features\<close> is the list of names that
  \<^verbatim>\<open>classifier.most_informative_features(num_most_informative)\<close> of \<^verbatim>\<open>nltk\<close> returned;
  it is a parameter of the model.
\<close>

fun newFeatureDict_loop ::
  "string list \<Rightarrow> nat dict \<Rightarrow> string list \<Rightarrow> nat dict \<Rightarrow> py_error + nat dict" where
  "newFeatureDict_loop most_informative_features featureDict [] newFeatureDict =
     Inr newFeatureDict"
| "newFeatureDict_loop most_informative_features featureDict (word # rest) newFeatureDict =
     (if word \<in> set most_informative_features
      then (case getitem featureDict word of
              Inl e \<Rightarrow> Inl e
            | Inr c \<Rightarrow>
                newFeatureDict_loop most_informative_features featureDict rest
                  (setitem newFeatureDict word c))
      else newFeatureDict_loop most_informative_features featureDict rest newFeatureDict)"

fun informative_loop ::
  "string list \<Rightarrow> featureset list \<Rightarrow> featureset list \<Rightarrow> py_error + featureset list" where
  "informative_loop most_informative_features [] informative_featuresets =
     Inr informative_featuresets"
| "informative_loop most_informative_features ((featureDict, isExplicit) # rest)
       informative_featuresets =
     (case newFeatureDict_loop most_informative_features featureDict (keys featureDict) [] of
        Inl e \<Rightarrow> Inl e
      | Inr newFeatureDict \<Rightarrow>
          informative_loop most_informative_features rest
            (informative_featuresets @ [(newFeatureDict, isExplicit)]))"

definition select_features ::
  "string list \<Rightarrow> featureset list \<Rightarrow> py_error + featureset list" where
  "select_features most_informative_features featuresets =
     informative_loop most_informative_features featuresets []"

subsection \<open>The same loop over a store of dictionary objects\<close>

text \<open>
  A Python dictionary is a mutable object and \<open>featuresets\<close> holds references to such
  objects. The store is the list of all dictionary objects, an address is an index into
  it, allocation appends. The loop allocates \<^verbatim>\<open>newFeatureDict = {}\<close>, writes to it through
  its address, and reads \<open>featureDict\<close> through the address found in \<open>featuresets\<close>.
  A reference always points to an object of the store.
\<close>

type_synonym store = "nat dict list"
type_synonym featureset_ref = "nat \<times> bool"

fun newFeatureDict_loop_st ::
  "string list \<Rightarrow> nat \<Rightarrow> nat \<Rightarrow> string list \<Rightarrow> store \<Rightarrow> py_error + store" where
  "newFeatureDict_loop_st most_informative_features featureDict newFeatureDict [] h = Inr h"
| "newFeatureDict_loop_st most_informative_features featureDict newFeatureDict (word # rest) h =
     (if word \<in> set most_informative_features
      then (case getitem (h ! featureDict) word of
              Inl e \<Rightarrow> Inl e
            | Inr c \<Rightarrow>
                newFeatureDict_loop_st most_informative_features featureDict newFeatureDict rest
                  (h[newFeatureDict := setitem (h ! newFeatureDict) word c]))
      else newFeatureDict_loop_st most_informative_features featureDict newFeatureDict rest h)"

fun informative_loop_st ::
  "string list \<Rightarrow> featureset_ref list \<Rightarrow> store \<Rightarrow> featureset_ref list
     \<Rightarrow> py_error + (store \<times> featureset_ref list)" where
  "informative_loop_st most_informative_features [] h informative_featuresets =
     Inr (h, informative_featuresets)"
| "informative_loop_st most_informative_features ((featureDict, isExplicit) # rest) h
       informative_featuresets =
     (let newFeatureDict = length h; h1 = h @ [[]]
      in case newFeatureDict_loop_st most_informative_features featureDict newFeatureDict
                (keys (h1 ! featureDict)) h1 of
           Inl e \<Rightarrow> Inl e
         | Inr h2 \<Rightarrow>
             informative_loop_st most_informative_features rest h2
               (informative_featuresets @ [(newFeatureDict, isExplicit)]))"

definition select_features_st ::
  "string list \<Rightarrow> store \<Rightarrow> featureset_ref list \<Rightarrow> py_error + (store \<times> featureset_ref list)" where
  "select_features_st most_informative_features h featuresets =
     informative_loop_st most_informative_features featuresets h []"

text \<open>The featuresets a list of references denotes in a store.\<close>

definition deref :: "store \<Rightarrow> featureset_ref list \<Rightarrow> featureset list" where
  "deref h featuresets = map (\<lambda>(a, isExplicit). (h ! a, isExplicit)) featuresets"

section \<open>Classifier trainer and evaluator: \<^verbatim>\<open>naive_bayes\<close>\<close>

text \<open>
  Numeric values of the metrics: a Python \<^verbatim>\<open>int\<close> or \<^verbatim>\<open>float\<close>, or a one-dimensional
  array of integers or of floats. Floats are modelled as exact reals. \<open>NonFiniteArr n\<close>
  stands for an array of \<open>n\<close> entries that are \<^verbatim>\<open>inf\<close> or \<^verbatim>\<open>nan\<close>, which is what
  dividing an array by zero yields.
\<close>

datatype npval = PyInt int | PyFloat real | IntArr "int list" | FloatArr "real list"
  | NonFiniteArr nat

text \<open>
  \<^verbatim>\<open>train_test_split(featuresets)\<close> with the defaults of scikit-learn: the test subset has
  \<open>ceil(0.25 * n)\<close> elements, the training subset has the rest, an empty training subset
  raises \<^verbatim>\<open>ValueError\<close>. The random draw is the permutation \<open>perm\<close> of the indices: its
  first \<open>n_test\<close> entries select the test subset, the following \<open>n_train\<close> the training
  subset. The library draws a permutation of \<open>0, \<dots>, n_samples - 1\<close>, so every index it
  holds is in range.
\<close>

definition train_test_split :: "nat list \<Rightarrow> 'a list \<Rightarrow> py_error + ('a list \<times> 'a list)" where
  "train_test_split perm arr =
     (let n_samples = length arr;
          n_test = nat \<lceil>(1 / 4 :: rat) * of_nat n_samples\<rceil>;
          n_train = n_samples - n_test
      in if n_train = 0 then Inl ValueError
         else Inr (map (\<lambda>i. arr ! i) (take n_train (drop n_test perm)),
                   map (\<lambda>i. arr ! i) (take n_test perm)))"

text \<open>
  \<^verbatim>\<open>precision_recall_fscore_support(testY, predictY)\<close> with its defaults: one entry per
  label present in either sequence, labels sorted; a ratio whose denominator is zero is
  reported as 0. The support of a label is the number of its occurrences in \<open>y_true\<close>.
  The library counts the true positives over the positions where the two sequences
  agree; when they agree nowhere it takes an array of float zeros instead, and the
  support array it returns is then an array of floats, otherwise of integers.
\<close>

definition unique_labels :: "bool list \<Rightarrow> bool list \<Rightarrow> bool list" where
  "unique_labels y_true y_pred = sort (remdups (y_true @ y_pred))"

definition tp_sum :: "bool list \<Rightarrow> bool list \<Rightarrow> bool \<Rightarrow> nat" where
  "tp_sum y_true y_pred l = length (filter (\<lambda>(t, p). t = l \<and> p = l) (zip y_true y_pred))"

definition prf_divide :: "real \<Rightarrow> real \<Rightarrow> real" where
  "prf_divide numerator denominator = (if denominator = 0 then 0 else numerator / denominator)"

definition precision_of :: "bool list \<Rightarrow> bool list \<Rightarrow> bool \<Rightarrow> real" where
  "precision_of y_true y_pred l =
     prf_divide (real (tp_sum y_true y_pred l)) (real (count_list y_pred l))"

definition recall_of :: "bool list \<Rightarrow> bool list \<Rightarrow> bool \<Rightarrow> real" where
  "recall_of y_true y_pred l =
     prf_divide (real (tp_sum y_true y_pred l)) (real (count_list y_true l))"

definition fscore_of :: "bool list \<Rightarrow> bool list \<Rightarrow> bool \<Rightarrow> real" where
  "fscore_of y_true y_pred l =
     (let p = precision_of y_true y_pred l; r = recall_of y_true y_pred l
      in prf_divide (2 * p * r) (p + r))"

definition precision_recall_fscore_support ::
  "bool list \<Rightarrow> bool list \<Rightarrow> real list \<times> real list \<times> real list \<times> npval" where
  "precision_recall_fscore_support y_true y_pred =
     (let labels = unique_labels y_true y_pred;
          tp_bins = filter (\<lambda>(t, p). t = p) (zip y_true y_pred);
          true_sum = map (\<lambda>l. int (count_list y_true l)) labels
      in (map (precision_of y_true y_pred) labels,
          map (recall_of y_true y_pred) labels,
          map (fscore_of y_true y_pred) labels,
          if tp_bins = [] then FloatArr (map of_int true_sum) else IntArr true_sum))"

text \<open>
  \<^verbatim>\<open>
  def naive_bayes(featuresets, printMetrics=True, showConfusionMatrix=False):
      trainSet, testSet = train_test_split(featuresets)
      classifier = nltk.NaiveBayesClassifier.train(trainSet)
      testY = list(list(zip(*testSet))[1])
      test_features = list(list(zip(*testSet))[0])
      predictY = [classifier.classify(features) for features in test_features]
      metrics = {}
      p,r,f,s = precision_recall_fscore_support(testY,predictY)
      metrics["precision"] = p
      metrics["recall"] = r
      metrics["f-score"] = f
      metrics["support"] = s
      if printMetrics:
          for metric in metrics.keys():
              print(f"{metric}: {metrics[metric]}")
      ...
      return classifier, metrics
  \<close>
  The classifier of \<^verbatim>\<open>nltk\<close> is a parameter: \<open>nb_train\<close> builds it from the training subset
  and \<open>nb_classify\<close> predicts a label with it. The result is the list of printed lines
  (label and value) with the returned pair or the exception raised. The model is that of
  a call with \<^verbatim>\<open>showConfusionMatrix=False\<close>, the default and what
  \<^verbatim>\<open>MonteCarloCrossValidation\<close> passes; with \<^verbatim>\<open>True\<close> the function renders a plot
  before it returns the same pair.
\<close>

type_synonym printed = "(string \<times> npval) list"

definition naive_bayes ::
  "(featureset list \<Rightarrow> 'c) \<Rightarrow> ('c \<Rightarrow> nat dict \<Rightarrow> bool) \<Rightarrow> nat list \<Rightarrow> featureset list \<Rightarrow> bool
     \<Rightarrow> printed \<times> (py_error + ('c \<times> npval dict))" where
  "naive_bayes nb_train nb_classify perm featuresets printMetrics =
     (case train_test_split perm featuresets of
        Inl e \<Rightarrow> ([], Inl e)
      | Inr (trainSet, testSet) \<Rightarrow>
          (let classifier = nb_train trainSet
           in if testSet = [] then ([], Inl IndexError)
              else
                (let testY = map snd testSet;
                     test_features = map fst testSet;
                     predictY = map (nb_classify classifier) test_features;
                     (p, r, f, s) = precision_recall_fscore_support testY predictY;
                     metrics = setitem [] ''precision'' (FloatArr p);
                     metrics = setitem metrics ''recall'' (FloatArr r);
                     metrics = setitem metrics ''f-score'' (FloatArr f);
                     metrics = setitem metrics ''support'' s
                 in (if printMetrics then metrics else [], Inr (classifier, metrics)))))"

subsection \<open>\<^verbatim>\<open>naive_bayes\<close> over the store\<close>

text \<open>
  Over the store, \<open>featuresets\<close> is a list of references and every library call that is
  handed a reference, directly or inside a list, may allocate and may write: a library
  call takes the store and returns the store it leaves. \<open>split\<close> stands for
  \<^verbatim>\<open>train_test_split\<close>, \<open>train\<close> for \<^verbatim>\<open>nltk.NaiveBayesClassifier.train\<close> and \<open>classify\<close>
  for \<^verbatim>\<open>classifier.classify\<close>. \<^verbatim>\<open>precision_recall_fscore_support\<close> is handed the two
  lists of labels only, which hold no reference. The statements of the notebook thread
  the store from call to call; the list comprehension calls \<open>classify\<close> once per test
  item, in order.
\<close>

fun predictY_loop_st ::
  "(store \<Rightarrow> 'c \<Rightarrow> nat \<Rightarrow> store \<times> bool) \<Rightarrow> 'c \<Rightarrow> nat list \<Rightarrow> store \<Rightarrow> bool list
     \<Rightarrow> store \<times> bool list" where
  "predictY_loop_st classify classifier [] h predictY = (h, predictY)"
| "predictY_loop_st classify classifier (features # rest) h predictY =
     (case classify h classifier features of
        (h', y) \<Rightarrow> predictY_loop_st classify classifier rest h' (predictY @ [y]))"

definition naive_bayes_st ::
  "(store \<Rightarrow> featureset_ref list
      \<Rightarrow> store \<times> (py_error + (featureset_ref list \<times> featureset_ref list)))
     \<Rightarrow> (store \<Rightarrow> featureset_ref list \<Rightarrow> store \<times> 'c)
     \<Rightarrow> (store \<Rightarrow> 'c \<Rightarrow> nat \<Rightarrow> store \<times> bool)
     \<Rightarrow> store \<Rightarrow> featureset_ref list \<Rightarrow> bool
     \<Rightarrow> store \<times> printed \<times> (py_error + ('c \<times> npval dict))" where
  "naive_bayes_st split train classify h featuresets printMetrics =
     (case split h featuresets of
        (h1, Inl e) \<Rightarrow> (h1, [], Inl e)
      | (h1, Inr (trainSet, testSet)) \<Rightarrow>
          (case train h1 trainSet of
             (h2, classifier) \<Rightarrow>
               if testSet = [] then (h2, [], Inl IndexError)
               else
                 (let testY = map snd testSet;
                      test_features = map fst testSet
                  in case predictY_loop_st classify classifier test_features h2 [] of
                       (h3, predictY) \<Rightarrow>
                         (let (p, r, f, s) = precision_recall_fscore_support testY predictY;
                              metrics = setitem [] ''precision'' (FloatArr p);
                              metrics = setitem metrics ''recall'' (FloatArr r);
                              metrics = setitem metrics ''f-score'' (FloatArr f);
                              metrics = setitem metrics ''support'' s
                          in (h3, if printMetrics then metrics else [],
                              Inr (classifier, metrics))))))"

text \<open>
  The three library calls as the libraries implement them. \<^verbatim>\<open>train_test_split\<close> builds
  two new lists of the pairs it was given. \<^verbatim>\<open>NaiveBayesClassifier.train\<close> iterates
  over the items of every training dictionary and fills frequency tables of its own.
  \<^verbatim>\<open>classify\<close> copies the dictionary it is handed
  (\<^verbatim>\<open>featureset = featureset.copy()\<close>), deletes from the copy every feature name that the
  classifier has not seen in training (\<^verbatim>\<open>del featureset[fname]\<close>), and scores the labels
  from the copy. Which names a classifier has seen and which label it decides on are
  parameters \<open>known\<close> and \<open>decide\<close>.
\<close>

definition sk_split_st ::
  "nat list \<Rightarrow> store \<Rightarrow> featureset_ref list
     \<Rightarrow> store \<times> (py_error + (featureset_ref list \<times> featureset_ref list))" where
  "sk_split_st perm h featuresets = (h, train_test_split perm featuresets)"

definition nltk_train_st ::
  "(featureset list \<Rightarrow> 'c) \<Rightarrow> store \<Rightarrow> featureset_ref list \<Rightarrow> store \<times> 'c" where
  "nltk_train_st nb_train h trainSet = (h, nb_train (deref h trainSet))"

text \<open>\<^verbatim>\<open>del d[k]\<close> for a key of \<open>d\<close>.\<close>

definition delitem :: "'v dict \<Rightarrow> string \<Rightarrow> 'v dict" where
  "delitem d k = filter (\<lambda>p. fst p \<noteq> k) d"

fun discard_loop_st :: "(string \<Rightarrow> bool) \<Rightarrow> nat \<Rightarrow> string list \<Rightarrow> store \<Rightarrow> store" where
  "discard_loop_st seen featureset [] h = h"
| "discard_loop_st seen featureset (fname # rest) h =
     (if seen fname then discard_loop_st seen featureset rest h
      else discard_loop_st seen featureset rest
             (h[featureset := delitem (h ! featureset) fname]))"

definition nltk_classify_st ::
  "('c \<Rightarrow> string \<Rightarrow> bool) \<Rightarrow> ('c \<Rightarrow> nat dict \<Rightarrow> bool) \<Rightarrow> store \<Rightarrow> 'c \<Rightarrow> nat \<Rightarrow> store \<times> bool" where
  "nltk_classify_st known decide h classifier featureset =
     (let copy = length h;
          h1 = h @ [h ! featureset];
          h2 = discard_loop_st (known classifier) copy (keys (h1 ! copy)) h1
      in (h2, decide classifier (h2 ! copy)))"

section \<open>Monte Carlo validator: \<^verbatim>\<open>MonteCarloCrossValidation\<close>\<close>

text \<open>
  \<^verbatim>\<open>a += b\<close> on an array \<open>a\<close> adds in place and keeps the shape of \<open>a\<close>: \<open>b\<close> must have the
  same length or length one.
\<close>

definition inplace_add :: "('a::plus) list \<Rightarrow> 'a list \<Rightarrow> py_error + 'a list" where
  "inplace_add a b =
     (if length b = length a then Inr (map2 (+) a b)
      else if length b = 1 then Inr (map (\<lambda>x. x + hd b) a)
      else Inl ValueError)"

fun iadd :: "npval \<Rightarrow> npval \<Rightarrow> py_error + npval" where
  "iadd (PyInt a) (PyInt b) = Inr (PyInt (a + b))"
| "iadd (PyInt a) (PyFloat b) = Inr (PyFloat (of_int a + b))"
| "iadd (PyInt a) (IntArr b) = Inr (IntArr (map (\<lambda>x. a + x) b))"
| "iadd (PyInt a) (FloatArr b) = Inr (FloatArr (map (\<lambda>x. of_int a + x) b))"
| "iadd (PyFloat a) (PyInt b) = Inr (PyFloat (a + of_int b))"
| "iadd (PyFloat a) (PyFloat b) = Inr (PyFloat (a + b))"
| "iadd (PyFloat a) (IntArr b) = Inr (FloatArr (map (\<lambda>x. a + of_int x) b))"
| "iadd (PyFloat a) (FloatArr b) = Inr (FloatArr (map (\<lambda>x. a + x) b))"
| "iadd (IntArr a) (PyInt b) = Inr (IntArr (map (\<lambda>x. x + b) a))"
| "iadd (IntArr a) (PyFloat b) = Inl TypeError"
| "iadd (IntArr a) (IntArr b) =
     (case inplace_add a b of Inl e \<Rightarrow> Inl e | Inr c \<Rightarrow> Inr (IntArr c))"
| "iadd (IntArr a) (FloatArr b) = Inl TypeError"
| "iadd (FloatArr a) (PyInt b) = Inr (FloatArr (map (\<lambda>x. x + of_int b) a))"
| "iadd (FloatArr a) (PyFloat b) = Inr (FloatArr (map (\<lambda>x. x + b) a))"
| "iadd (FloatArr a) (IntArr b) =
     (case inplace_add a (map of_int b) of Inl e \<Rightarrow> Inl e | Inr c \<Rightarrow> Inr (FloatArr c))"
| "iadd (FloatArr a) (FloatArr b) =
     (case inplace_add a b of Inl e \<Rightarrow> Inl e | Inr c \<Rightarrow> Inr (FloatArr c))"
| "iadd (NonFiniteArr k) b = Inr (NonFiniteArr k)"
| "iadd (PyInt a) (NonFiniteArr k) = Inr (NonFiniteArr k)"
| "iadd (PyFloat a) (NonFiniteArr k) = Inr (NonFiniteArr k)"
| "iadd (IntArr a) (NonFiniteArr k) = Inl TypeError"
| "iadd (FloatArr a) (NonFiniteArr k) =
     (if k = length a \<or> k = 1 then Inr (NonFiniteArr (length a)) else Inl ValueError)"

text \<open>
  \<^verbatim>\<open>a / n\<close> with \<open>n\<close> a Python \<^verbatim>\<open>int\<close>: a scalar divided by zero raises
  \<^verbatim>\<open>ZeroDivisionError\<close>, an array divided by zero does not raise.
\<close>

fun truediv :: "npval \<Rightarrow> int \<Rightarrow> py_error + npval" where
  "truediv (PyInt a) n =
     (if n = 0 then Inl ZeroDivisionError else Inr (PyFloat (of_int a / of_int n)))"
| "truediv (PyFloat a) n =
     (if n = 0 then Inl ZeroDivisionError else Inr (PyFloat (a / of_int n)))"
| "truediv (IntArr a) n =
     (if n = 0 then Inr (NonFiniteArr (length a))
      else Inr (FloatArr (map (\<lambda>x. of_int x / of_int n) a)))"
| "truediv (FloatArr a) n =
     (if n = 0 then Inr (NonFiniteArr (length a))
      else Inr (FloatArr (map (\<lambda>x. x / of_int n) a)))"
| "truediv (NonFiniteArr k) n = Inr (NonFiniteArr k)"

text \<open>
  \<^verbatim>\<open>
  def MonteCarloCrossValidation(featuresets,n):
      metrics_averages = {"precision": 0, "recall": 0, "f-score": 0, "support": 0}
      for _ in range(n):
          _, metrics = naive_bayes(featuresets,printMetrics=False)
          for metric in metrics.keys():
              metrics_averages[metric] += metrics[metric]
      for metric in metrics_averages.keys():
          metrics_averages[metric] = metrics_averages[metric]/n
      for metric in metrics.keys():
          print(f"average {metric}: {metrics_averages[metric]}")
      return metrics_averages
  \<close>
  Each call of \<open>naive_bayes\<close> draws a fresh permutation; \<open>draw i\<close> is the permutation that
  the call of repetition \<open>i\<close> draws. \<open>metrics\<close> is a local variable that is unbound until
  the first repetition assigns it.
\<close>

fun accumulate_loop :: "npval dict \<Rightarrow> string list \<Rightarrow> npval dict \<Rightarrow> py_error + npval dict" where
  "accumulate_loop metrics [] metrics_averages = Inr metrics_averages"
| "accumulate_loop metrics (metric # rest) metrics_averages =
     (case getitem metrics_averages metric of
        Inl e \<Rightarrow> Inl e
      | Inr a \<Rightarrow>
          (case getitem metrics metric of
             Inl e \<Rightarrow> Inl e
           | Inr m \<Rightarrow>
               (case iadd a m of
                  Inl e \<Rightarrow> Inl e
                | Inr v \<Rightarrow> accumulate_loop metrics rest (setitem metrics_averages metric v))))"

fun repetition_loop ::
  "(featureset list \<Rightarrow> 'c) \<Rightarrow> ('c \<Rightarrow> nat dict \<Rightarrow> bool) \<Rightarrow> (nat \<Rightarrow> nat list) \<Rightarrow> featureset list
     \<Rightarrow> nat list \<Rightarrow> npval dict \<Rightarrow> npval dict option
     \<Rightarrow> py_error + (npval dict \<times> npval dict option)" where
  "repetition_loop nb_train nb_classify draw featuresets [] metrics_averages metrics =
     Inr (metrics_averages, metrics)"
| "repetition_loop nb_train nb_classify draw featuresets (i # rest) metrics_averages metrics =
     (case snd (naive_bayes nb_train nb_classify (draw i) featuresets False) of
        Inl e \<Rightarrow> Inl e
      | Inr (classifier, metrics') \<Rightarrow>
          (case accumulate_loop metrics' (keys metrics') metrics_averages of
             Inl e \<Rightarrow> Inl e
           | Inr metrics_averages' \<Rightarrow>
               repetition_loop nb_train nb_classify draw featuresets rest
                 metrics_averages' (Some metrics')))"

fun divide_loop :: "int \<Rightarrow> string list \<Rightarrow> npval dict \<Rightarrow> py_error + npval dict" where
  "divide_loop n [] metrics_averages = Inr metrics_averages"
| "divide_loop n (metric # rest) metrics_averages =
     (case getitem metrics_averages metric of
        Inl e \<Rightarrow> Inl e
      | Inr a \<Rightarrow>
          (case truediv a n of
             Inl e \<Rightarrow> Inl e
           | Inr v \<Rightarrow> divide_loop n rest (setitem metrics_averages metric v)))"

fun print_loop :: "string list \<Rightarrow> npval dict \<Rightarrow> printed \<Rightarrow> printed \<times> py_error option" where
  "print_loop [] metrics_averages out = (out, None)"
| "print_loop (metric # rest) metrics_averages out =
     (case getitem metrics_averages metric of
        Inl e \<Rightarrow> (out, Some e)
      | Inr v \<Rightarrow> print_loop rest metrics_averages (out @ [(''average '' @ metric, v)]))"

definition MonteCarloCrossValidation ::
  "(featureset list \<Rightarrow> 'c) \<Rightarrow> ('c \<Rightarrow> nat dict \<Rightarrow> bool) \<Rightarrow> (nat \<Rightarrow> nat list) \<Rightarrow> featureset list
     \<Rightarrow> int \<Rightarrow> printed \<times> (py_error + npval dict)" where
  "MonteCarloCrossValidation nb_train nb_classify draw featuresets n =
     (let metrics_averages =
            [(''precision'', PyInt 0), (''recall'', PyInt 0), (''f-score'', PyInt 0),
             (''support'', PyInt 0)]
      in case repetition_loop nb_train nb_classify draw featuresets [0..<nat n]
                metrics_averages None of
           Inl e \<Rightarrow> ([], Inl e)
         | Inr (metrics_averages, metrics) \<Rightarrow>
             (case divide_loop n (keys metrics_averages) metrics_averages of
                Inl e \<Rightarrow> ([], Inl e)
              | Inr metrics_averages \<Rightarrow>
                  (case metrics of
                     None \<Rightarrow> ([], Inl UnboundLocalError)
                   | Some metrics \<Rightarrow>
                       (case print_loop (keys metrics) metrics_averages [] of
                          (out, Some e) \<Rightarrow> (out, Inl e)
                        | (out, None) \<Rightarrow> (out, Inr metrics_averages)))))"

text \<open>The numbers an array value holds, for comparing arrays of different element type.\<close>

fun entries :: "npval \<Rightarrow> real list option" where
  "entries (PyInt a) = Some [of_int a]"
| "entries (PyFloat a) = Some [a]"
| "entries (IntArr a) = Some (map of_int a)"
| "entries (FloatArr a) = Some a"
| "entries (NonFiniteArr k) = None"

text \<open>No value of the dictionary is an array of \<^verbatim>\<open>inf\<close> or \<^verbatim>\<open>nan\<close> entries.\<close>

definition all_finite :: "npval dict \<Rightarrow> bool" where
  "all_finite d = list_all (\<lambda>p. entries (snd p) \<noteq> None) d"

section \<open>Concrete inputs\<close>

text \<open>Stemmers, classifiers, draws and tables used at concrete inputs below.\<close>

definition id_stem :: "string \<Rightarrow> string" where
  "id_stem w = w"

text \<open>A stemmer that maps the plural \<open>wills\<close> to \<open>will\<close>, as the Porter stemmer does.\<close>

definition plural_stem :: "string \<Rightarrow> string" where
  "plural_stem w = (if w = ''wills'' then ''will'' else w)"

text \<open>A classifier that remembers the label of the first training example.\<close>

definition first_label_train :: "featureset list \<Rightarrow> bool" where
  "first_label_train trainSet = (case trainSet of [] \<Rightarrow> False | (d, l) # rest \<Rightarrow> l)"

definition first_label_classify :: "bool \<Rightarrow> nat dict \<Rightarrow> bool" where
  "first_label_classify classifier features = classifier"

text \<open>
  A classifier that has seen the feature names of its training subset and calls a track
  explicit when it holds the word \<open>damn\<close>; without that feature it falls back on the
  label of the first training example.
\<close>

definition damn_train :: "featureset list \<Rightarrow> string list \<times> bool" where
  "damn_train trainSet =
     (remdups (concat (map (\<lambda>p. keys (fst p)) trainSet)), first_label_train trainSet)"

definition damn_known :: "string list \<times> bool \<Rightarrow> string \<Rightarrow> bool" where
  "damn_known classifier fname = (fname \<in> set (fst classifier))"

definition damn_decide :: "string list \<times> bool \<Rightarrow> nat dict \<Rightarrow> bool" where
  "damn_decide classifier features =
     (case map_of features ''damn'' of None \<Rightarrow> snd classifier | Some c \<Rightarrow> 0 < c)"

definition damn_classify :: "string list \<times> bool \<Rightarrow> nat dict \<Rightarrow> bool" where
  "damn_classify classifier features =
     damn_decide classifier (filter (\<lambda>p. damn_known classifier (fst p)) features)"

definition eight_featuresets :: "featureset list" where
  "eight_featuresets =
     [([(''damn'', 1), (''hello'', 0)], True), ([(''damn'', 1), (''hello'', 1)], False),
      ([(''damn'', 0), (''hello'', 1)], False), ([(''damn'', 0), (''hello'', 1)], True),
      ([(''damn'', 2), (''hello'', 0)], True), ([(''damn'', 0), (''hello'', 2)], False),
      ([(''damn'', 1), (''hello'', 0)], True), ([(''damn'', 0), (''hello'', 1)], False)]"

definition four_tracks :: "track list" where
  "four_tracks =
     [\<lparr>lyrics = ''damn'', explicit = True\<rparr>, \<lparr>lyrics = ''hello'', explicit = False\<rparr>,
      \<lparr>lyrics = ''damn hell'', explicit = True\<rparr>, \<lparr>lyrics = ''sunshine'', explicit = False\<rparr>]"

definition four_featuresets :: "featureset list" where
  "four_featuresets =
     [([(''damn'', 1), (''hell'', 0), (''hello'', 0), (''sunshine'', 0)], True),
      ([(''damn'', 0), (''hell'', 0), (''hello'', 1), (''sunshine'', 0)], False),
      ([(''damn'', 1), (''hell'', 1), (''hello'', 0), (''sunshine'', 0)], True),
      ([(''damn'', 0), (''hell'', 0), (''hello'', 0), (''sunshine'', 1)], False)]"

definition wills_tracks :: "track list" where
  "wills_tracks = [\<lparr>lyrics = ''wills'', explicit = False\<rparr>]"

definition love_u_tracks :: "track list" where
  "love_u_tracks = [\<lparr>lyrics = ''love u'', explicit = False\<rparr>]"

definition two_line_tracks :: "track list" where
  "two_line_tracks = [\<lparr>lyrics = [CHR ''o'', CHR ''h'', CHR 0x0A, CHR ''n'', CHR ''o''], explicit = False\<rparr>]"

definition the_wills_tracks :: "track list" where
  "the_wills_tracks = [\<lparr>lyrics = ''The wills run'', explicit = True\<rparr>]"

definition the_only_tracks :: "track list" where
  "the_only_tracks = [\<lparr>lyrics = ''the'', explicit = False\<rparr>]"

text \<open>
  A store of three dictionaries and the references to them. The first dictionary holds
  a feature name that the other two lack.
\<close>

definition three_store :: store where
  "three_store = [[(''damn'', 1), (''yeah'', 1)], [(''damn'', 0)], [(''damn'', 1)]]"

definition three_refs :: "featureset_ref list" where
  "three_refs = [(0, True), (1, False), (2, True)]"

text \<open>A source of draws that yields the same permutation at every repetition.\<close>

definition fixed_draw :: "nat \<Rightarrow> nat list" where
  "fixed_draw i = [0, 2, 1, 3]"

text \<open>
  A source of draws over eight items: the first repetition holds out items 0 and 1,
  every later one items 1 and 3.
\<close>

definition mixed_draw :: "nat \<Rightarrow> nat list" where
  "mixed_draw i = (if i = 0 then [0, 1, 2, 3, 4, 5, 6, 7] else [1, 3, 0, 2, 4, 5, 6, 7])"

section \<open>Splitting and joining\<close>

lemma split_at_not_Nil: "split_at sep s \<noteq> []"
  by (induction s) (auto split: list.splits)

lemma join_split_at: "join [x] (split_at (\<lambda>c. c = x) s) = s"
proof (induction s)
  case Nil
  then show ?case by simp
next
  case (Cons c cs)
  obtain t ts where ts: "split_at (\<lambda>c. c = x) cs = t # ts"
    using split_at_not_Nil [of "\<lambda>c. c = x" cs] by (cases "split_at (\<lambda>c. c = x) cs") auto
  show ?case
  proof (cases "c = x")
    case True
    then show ?thesis using Cons.IH ts by simp
  next
    case False
    then show ?thesis using Cons.IH ts by (cases ts) auto
  qed
qed

lemma split_at_tokens: "t \<in> set (split_at sep s) \<Longrightarrow> c \<in> set t \<Longrightarrow> \<not> sep c"
proof (induction s arbitrary: t)
  case Nil
  then show ?case by simp
next
  case (Cons a s)
  obtain u us where us: "split_at sep s = u # us"
    using split_at_not_Nil [of sep s] by (cases "split_at sep s") auto
  show ?case
  proof (cases "sep a")
    case True
    with Cons.prems have "t \<in> set (split_at sep s)" by auto
    then show ?thesis using Cons.IH Cons.prems(2) by blast
  next
    case False
    with Cons.prems us have "t = a # u \<or> t \<in> set us" by auto
    then show ?thesis
    proof
      assume "t = a # u"
      then have "c = a \<or> c \<in> set u" using Cons.prems(2) by auto
      then show ?thesis using False Cons.IH [of u] us by auto
    next
      assume "t \<in> set us"
      then show ?thesis using Cons.IH [of t] us Cons.prems(2) by auto
    qed
  qed
qed

lemma split_at_append_sep:
  "\<forall>c\<in>set t. \<not> sep c \<Longrightarrow> sep x \<Longrightarrow> split_at sep (t @ x # s) = t # split_at sep s"
  by (induction t) auto

lemma split_at_token: "\<forall>c\<in>set t. \<not> sep c \<Longrightarrow> split_at sep t = [t]"
  by (induction t) auto

lemma split_at_join:
  "ts \<noteq> [] \<Longrightarrow> \<forall>t\<in>set ts. \<forall>c\<in>set t. \<not> sep c \<Longrightarrow> sep x \<Longrightarrow> split_at sep (join [x] ts) = ts"
proof (induction ts)
  case Nil
  then show ?case by simp
next
  case (Cons t ts)
  show ?case
  proof (cases ts)
    case Nil
    with Cons.prems show ?thesis by (simp add: split_at_token)
  next
    case (Cons u us)
    with Cons.prems Cons.IH show ?thesis
      by (simp add: split_at_append_sep)
  qed
qed

lemma split_at_cong: "\<forall>c\<in>set s. p c = q c \<Longrightarrow> split_at p s = split_at q s"
  by (induction s) auto

lemma split_whitespace_eq_split_space:
  assumes "\<forall>c\<in>set s. is_whitespace c \<longrightarrow> c = SPACE" and "[] \<notin> set (split_space s)"
  shows "split_whitespace s = split_space s"
proof -
  have "\<forall>c\<in>set s. is_whitespace c = (c = SPACE)"
    using assms(1) by (auto simp: is_whitespace_def SPACE_def)
  then have "split_at is_whitespace s = split_space s"
    unfolding split_space_def by (rule split_at_cong)
  moreover have "filter (\<lambda>t. t \<noteq> []) (split_space s) = split_space s"
    using assms(2) by (auto simp: filter_id_conv)
  ultimately show ?thesis by (simp add: split_whitespace_def)
qed

section \<open>The text normalizer\<close>

lemma comprehension_filter_map:
  "concat (map (\<lambda>w. if P w then [f w] else []) xs) = map f (filter P xs)"
  by (induction xs) auto

lemma stem_one_eq:
  "stem_one stem stop_words s =
     join [SPACE] (map stem (filter (\<lambda>t. lower t \<notin> set stop_words) (split_space s)))"
  by (simp add: stem_one_def Let_def comprehension_filter_map)

lemma stemLyrics_loop_map:
  "stemLyrics_loop stem stop_words ls acc = acc @ map (stem_one stem stop_words) ls"
  by (induction ls arbitrary: acc) auto

lemma stemLyrics_map:
  "stemLyrics stem tracks stop_words = map (\<lambda>t. stem_one stem stop_words (lyrics t)) tracks"
  by (simp add: stemLyrics_def stemLyrics_loop_map comp_def)

lemma stem_one_spec:
  assumes "\<forall>c\<in>set s. is_whitespace c \<longrightarrow> c = SPACE" and "[] \<notin> set (split_space s)"
  shows "stem_one stem stop_words s = normalize_spec stem stop_words s"
  using assms
  by (simp add: stem_one_eq normalize_spec_def split_whitespace_eq_split_space)

lemma stem_one_all_filtered:
  assumes "\<forall>t\<in>set (split_space s). lower t \<in> set stop_words"
  shows "stem_one stem stop_words s = []"
proof -
  have "filter (\<lambda>t. lower t \<notin> set stop_words) (split_space s) = []"
    using assms by (simp add: filter_empty_conv)
  then show ?thesis by (simp add: stem_one_eq)
qed

lemma stem_one_idem:
  assumes idem: "\<forall>w. stem (stem w) = stem w"
    and nosp: "\<forall>w. SPACE \<notin> set w \<longrightarrow> SPACE \<notin> set (stem w)"
    and keep: "\<forall>w. lower w \<notin> set stop_words \<longrightarrow> lower (stem w) \<notin> set stop_words"
    and empty: "stem [] = []"
  shows "stem_one stem stop_words (stem_one stem stop_words s) = stem_one stem stop_words s"
proof -
  define kept where "kept = filter (\<lambda>t. lower t \<notin> set stop_words) (split_space s)"
  define ts where "ts = map stem kept"
  have one: "stem_one stem stop_words s = join [SPACE] ts"
    by (simp add: stem_one_eq ts_def kept_def)
  show ?thesis
  proof (cases "ts = []")
    case True
    then have "stem_one stem stop_words s = []" using one by simp
    then show ?thesis using empty
      by (simp add: stem_one_eq split_space_def)
  next
    case False
    have tok: "\<forall>t\<in>set kept. SPACE \<notin> set t"
      using split_at_tokens [of _ "\<lambda>c. c = SPACE" s]
      by (auto simp: kept_def split_space_def)
    then have "\<forall>t\<in>set ts. \<forall>c\<in>set t. \<not> c = SPACE"
      using nosp by (auto simp: ts_def)
    with False have sp: "split_space (join [SPACE] ts) = ts"
      unfolding split_space_def by (intro split_at_join) auto
    have "filter (\<lambda>t. lower t \<notin> set stop_words) ts = ts"
      using keep by (auto simp: ts_def kept_def filter_id_conv)
    moreover have "map stem ts = ts"
      using idem by (simp add: ts_def)
    ultimately show ?thesis
      by (simp add: one stem_one_eq [of stem stop_words "join [SPACE] ts"] sp)
  qed
qed

lemma with_lyrics_column:
  "length column = length tracks \<Longrightarrow> map lyrics (with_lyrics tracks column) = column"
proof (induction tracks arbitrary: column)
  case Nil
  then show ?case by (simp add: with_lyrics_def)
next
  case (Cons t tracks)
  then obtain c cs where "column = c # cs" by (cases column) auto
  with Cons show ?case by (simp add: with_lyrics_def)
qed

lemma plural_stem_idempotent: "plural_stem (plural_stem w) = plural_stem w"
  by (simp add: plural_stem_def)

text \<open>
  C2, as the code has it. \<open>stemLyrics\<close> returns one string per track, in order. Each is
  obtained by splitting the lyric at every single space character (the tokens rejoined
  with single spaces give the lyric back, and no token holds a space, so two adjacent
  spaces delimit an empty token and a tab or a newline delimits nothing), dropping the
  tokens whose lower-cased form is a stop word, stemming the others and joining the
  stems with single spaces in their order. Where single spaces between non-empty tokens
  are the only whitespace of the lyric, this is the string the specification describes.
  When every token is dropped, the result is the empty string.
\<close>

theorem stemLyrics_splits_at_spaces:
  "length (stemLyrics stem tracks stop_words) = length tracks \<and>
   (\<forall>i<length tracks.
      stemLyrics stem tracks stop_words ! i =
        join [SPACE] (map stem (filter (\<lambda>t. lower t \<notin> set stop_words)
          (split_space (lyrics (tracks ! i))))) \<and>
      join [SPACE] (split_space (lyrics (tracks ! i))) = lyrics (tracks ! i) \<and>
      (\<forall>t\<in>set (split_space (lyrics (tracks ! i))). SPACE \<notin> set t) \<and>
      ((\<forall>c\<in>set (lyrics (tracks ! i)). is_whitespace c \<longrightarrow> c = SPACE) \<and>
       [] \<notin> set (split_space (lyrics (tracks ! i))) \<longrightarrow>
         stemLyrics stem tracks stop_words ! i =
           normalize_spec stem stop_words (lyrics (tracks ! i))) \<and>
      ((\<forall>t\<in>set (split_space (lyrics (tracks ! i))). lower t \<in> set stop_words) \<longrightarrow>
         stemLyrics stem tracks stop_words ! i = []))"
proof -
  have len: "length (stemLyrics stem tracks stop_words) = length tracks"
    by (simp add: stemLyrics_map)
  have body: "stemLyrics stem tracks stop_words ! i = stem_one stem stop_words (lyrics (tracks ! i))"
    if "i < length tracks" for i
    using that by (simp add: stemLyrics_map)
  have rejoin: "join [SPACE] (split_space s) = s" for s
    unfolding split_space_def by (rule join_split_at)
  have nospace: "\<forall>t\<in>set (split_space s). SPACE \<notin> set t" for s
    using split_at_tokens [of _ "\<lambda>c. c = SPACE" s] by (auto simp: split_space_def)
  show ?thesis
    using len body rejoin nospace stem_one_eq stem_one_spec stem_one_all_filtered
    by (metis (no_types, lifting))
qed

theorem stemLyrics_splits_at_spaces_witness:
  "stemLyrics plural_stem the_wills_tracks [''the''] ! 0 = ''will run'' \<and>
   normalize_spec plural_stem [''the''] ''The wills run'' = ''will run'' \<and>
   stemLyrics plural_stem the_wills_tracks [''the'', ''wills'', ''run''] ! 0 = []"
proof -
  let ?s = "lyrics (the_wills_tracks ! 0)"
  have l: "?s = ''The wills run''"
    by (simp add: the_wills_tracks_def)
  have i: "0 < length the_wills_tracks"
    by (simp add: the_wills_tracks_def)
  have ws: "\<forall>c\<in>set ?s. is_whitespace c \<longrightarrow> c = SPACE"
    by (simp add: l is_whitespace_def SPACE_def)
  have ne: "[] \<notin> set (split_space ?s)"
    unfolding l by code_simp
  have sw: "\<forall>t\<in>set (split_space ?s). lower t \<in> set [''the'', ''wills'', ''run'']"
    unfolding l by code_simp
  have v: "normalize_spec plural_stem [''the''] ''The wills run'' = ''will run''"
    by code_simp
  from stemLyrics_splits_at_spaces [of plural_stem the_wills_tracks "[''the'']"] i ws ne
  have "stemLyrics plural_stem the_wills_tracks [''the''] ! 0 =
          normalize_spec plural_stem [''the''] ?s"
    by blast
  moreover
  from stemLyrics_splits_at_spaces [of plural_stem the_wills_tracks "[''the'', ''wills'', ''run'']"]
    i sw
  have "stemLyrics plural_stem the_wills_tracks [''the'', ''wills'', ''run''] ! 0 = []"
    by blast
  ultimately show ?thesis using v l by simp
qed

text \<open>
  C2 as stated fails: the code splits at the space character only. A newline between two
  words does not separate them for the code, and it does for the specification's
  whitespace splitting.
\<close>

theorem stemLyrics_whitespace_counterexample:
  "stemLyrics id_stem two_line_tracks [''oh''] = [lyrics (two_line_tracks ! 0)] \<and>
   normalize_spec id_stem [''oh''] (lyrics (two_line_tracks ! 0)) = ''no'' \<and>
   stemLyrics id_stem two_line_tracks [''oh''] ! 0 \<noteq>
     normalize_spec id_stem [''oh''] (lyrics (two_line_tracks ! 0))"
  by code_simp

text \<open>
  C7, as the code has it. Normalizing the table of already normalized lyrics changes
  nothing, for a stemmer that is idempotent, maps the empty token to itself and puts no
  space into a token without one, provided that the stem of a token that is not a stop
  word is not a stop word either.
\<close>

theorem stemLyrics_idempotent:
  assumes "\<forall>w. stem (stem w) = stem w"
    and "\<forall>w. SPACE \<notin> set w \<longrightarrow> SPACE \<notin> set (stem w)"
    and "\<forall>w. lower w \<notin> set stop_words \<longrightarrow> lower (stem w) \<notin> set stop_words"
    and "stem [] = []"
  shows "stemLyrics stem (with_lyrics tracks (stemLyrics stem tracks stop_words)) stop_words =
         stemLyrics stem tracks stop_words"
proof -
  let ?once = "stemLyrics stem tracks stop_words"
  have len: "length ?once = length tracks" by (simp add: stemLyrics_map)
  have "stemLyrics stem (with_lyrics tracks ?once) stop_words =
          map (stem_one stem stop_words) (map lyrics (with_lyrics tracks ?once))"
    by (simp add: stemLyrics_map comp_def)
  also have "\<dots> = map (stem_one stem stop_words) ?once"
    using len by (simp only: with_lyrics_column)
  also have "\<dots> = ?once"
    using stem_one_idem [OF assms] by (simp add: stemLyrics_map)
  finally show ?thesis .
qed

theorem stemLyrics_idempotent_witness:
  "stemLyrics plural_stem
     (with_lyrics the_wills_tracks (stemLyrics plural_stem the_wills_tracks [''the'']))
     [''the''] = [''will run'']"
proof -
  have a: "\<forall>w. plural_stem (plural_stem w) = plural_stem w"
    by (simp add: plural_stem_idempotent)
  have b: "\<forall>w. SPACE \<notin> set w \<longrightarrow> SPACE \<notin> set (plural_stem w)"
    by (simp add: plural_stem_def SPACE_def)
  have "lower ''will'' \<notin> set [''the'']" by code_simp
  then have c: "\<forall>w. lower w \<notin> set [''the''] \<longrightarrow> lower (plural_stem w) \<notin> set [''the'']"
    by (simp add: plural_stem_def)
  have d: "plural_stem [] = []" by (simp add: plural_stem_def)
  have v: "stemLyrics plural_stem the_wills_tracks [''the''] = [''will run'']" by code_simp
  show ?thesis
    using stemLyrics_idempotent [of plural_stem "[''the'']" the_wills_tracks, OF a b c d] v
    by simp
qed

text \<open>
  C7 as stated fails: a stop word can survive the first pass as the stem of a word that
  is not one. With the stop word \<open>will\<close> and an idempotent stemmer that maps \<open>wills\<close> to
  \<open>will\<close>, the first pass yields \<open>will\<close> and the second pass the empty string.
\<close>

theorem stemLyrics_idempotent_counterexample:
  "stemLyrics plural_stem wills_tracks [''will''] = [''will''] \<and>
   stemLyrics plural_stem (with_lyrics wills_tracks (stemLyrics plural_stem wills_tracks [''will'']))
     [''will''] = [[]] \<and>
   stemLyrics plural_stem (with_lyrics wills_tracks (stemLyrics plural_stem wills_tracks [''will'']))
     [''will''] \<noteq> stemLyrics plural_stem wills_tracks [''will'']"
  by code_simp

section \<open>The vectorizer and the featureset builder\<close>

lemma sum_count_list_cover:
  assumes "distinct vs" and "set xs \<subseteq> set vs"
  shows "sum_list (map (count_list xs) vs) = length xs"
proof -
  have "sum_list (map (count_list xs) vs) = sum (count_list xs) (set vs)"
    using assms(1) by (simp add: sum_list_distinct_conv_sum_set)
  also have "\<dots> = length xs"
    using assms(2) by (simp add: sum_count_set)
  finally show ?thesis .
qed

lemma fit_transform_Inr:
  assumes "fit_transform docs = Inr (words, vec)"
  shows "words = sort (remdups (concat (map analyzer docs)))"
    and "vec = map (\<lambda>d. map (count_list (analyzer d)) words) docs"
    and "words \<noteq> []"
  using assms by (auto simp: fit_transform_def Let_def comp_def split: if_splits)

lemma fit_transform_words:
  assumes "fit_transform docs = Inr (words, vec)"
  shows "distinct words" and "set words = (\<Union>d\<in>set docs. set (analyzer d))"
  using fit_transform_Inr(1) [OF assms] by auto

lemma fit_transform_raises:
  "fit_transform docs = Inl ValueError \<longleftrightarrow> (\<forall>d\<in>set docs. analyzer d = [])"
proof -
  let ?v = "sort (remdups (concat (map analyzer docs)))"
  have "set ?v = (\<Union>d\<in>set docs. set (analyzer d))" by simp
  moreover have "?v = [] \<longleftrightarrow> set ?v = {}" by (simp only: set_empty)
  ultimately have "?v = [] \<longleftrightarrow> (\<forall>d\<in>set docs. analyzer d = [])" by simp
  then show ?thesis
    by (auto simp: fit_transform_def Let_def)
qed

lemma setitem_append: "k \<notin> set (keys d) \<Longrightarrow> setitem d k v = d @ [(k, v)]"
  by (induction d) (auto simp: keys_def)

lemma featureX_loop_from:
  assumes "distinct words" and "length row = length words"
  shows "k \<le> length words \<Longrightarrow>
         featureX_loop words row [k..<length words] (zip (take k words) (take k row)) =
           Inr (zip words row)"
proof (induction "length words - k" arbitrary: k)
  case 0
  then show ?case using assms(2) by simp
next
  case (Suc m)
  then have k: "k < length words" by simp
  have fresh: "words ! k \<notin> set (keys (zip (take k words) (take k row)))"
  proof -
    have "keys (zip (take k words) (take k row)) = take k words"
      using assms(2) by (simp add: keys_def)
    moreover have "words ! k \<notin> set (take k words)"
    proof
      assume "words ! k \<in> set (take k words)"
      then obtain j where "j < k" "words ! j = words ! k"
        by (auto simp: in_set_conv_nth)
      then show False using assms(1) k by (simp add: nth_eq_iff_index_eq)
    qed
    ultimately show ?thesis by simp
  qed
  have step: "setitem (zip (take k words) (take k row)) (words ! k) (row ! k) =
                zip (take (Suc k) words) (take (Suc k) row)"
    using k assms(2) by (simp add: setitem_append [OF fresh] take_Suc_conv_app_nth)
  have "featureX_loop words row [k..<length words] (zip (take k words) (take k row)) =
          featureX_loop words row [Suc k..<length words] (zip (take (Suc k) words) (take (Suc k) row))"
    using k assms(2) by (simp add: upt_conv_Cons step)
  also have "\<dots> = Inr (zip words row)"
    using Suc.hyps k by (intro Suc.hyps(1)) auto
  finally show ?case .
qed

lemma featureX_loop_zip:
  assumes "distinct words" and "length row = length words"
  shows "featureX_loop words row [0..<length words] [] = Inr (zip words row)"
  using featureX_loop_from [OF assms, of 0] by simp

lemma featuresets_loop_map:
  assumes "distinct words" and "length vec = length y"
    and "\<forall>row\<in>set vec. length row = length words"
  shows "\<forall>i\<in>set is. i < length y \<Longrightarrow>
         featuresets_loop words vec y is acc =
           Inr (acc @ map (\<lambda>i. (zip words (vec ! i), y ! i)) is)"
proof (induction "is" arbitrary: acc)
  case Nil
  then show ?case by simp
next
  case (Cons i "is")
  then have i: "i < length y" "i < length vec" using assms(2) by auto
  then have "length (vec ! i) = length words" using assms(3) by simp
  then have "featureX_loop words (vec ! i) [0..<length words] [] = Inr (zip words (vec ! i))"
    by (rule featureX_loop_zip [OF assms(1)])
  then show ?case using i Cons by simp
qed

lemma build_featuresets_zip:
  assumes "distinct words" and "length vec = length y"
    and "\<forall>row\<in>set vec. length row = length words"
  shows "build_featuresets words vec y = Inr (map2 (\<lambda>row l. (zip words row, l)) vec y)"
proof -
  have "build_featuresets words vec y =
          Inr (map (\<lambda>i. (zip words (vec ! i), y ! i)) [0..<length y])"
    unfolding build_featuresets_def
    using featuresets_loop_map [OF assms, of "[0..<length y]" "[]"] by simp
  also have "map (\<lambda>i. (zip words (vec ! i), y ! i)) [0..<length y] =
               map2 (\<lambda>row l. (zip words row, l)) vec y"
    using assms(2) by (intro nth_equalityI) auto
  finally show ?thesis .
qed

lemma keys_zip: "length row = length words \<Longrightarrow> keys (zip words row) = words"
  by (simp add: keys_def)

lemma getitem_zip:
  "distinct words \<Longrightarrow> length row = length words \<Longrightarrow> j < length words \<Longrightarrow>
   getitem (zip words row) (words ! j) = Inr (row ! j)"
  by (simp add: getitem_def map_of_zip_nth)

lemma fit_transform_shape:
  assumes "fit_transform docs = Inr (words, vec)"
  shows "length vec = length docs" and "\<forall>row\<in>set vec. length row = length words"
    and "\<And>i. i < length docs \<Longrightarrow> vec ! i = map (count_list (analyzer (docs ! i))) words"
  using fit_transform_Inr(2) [OF assms] by auto

text \<open>
  C1, as the code has it. When the vectorizer returns, it returns one count-vector per
  track, and the entries of a track's vector sum to the number of tokens that the
  vectorizer's own analyzer finds in the track's normalized lyric string: the maximal
  runs of at least two word characters of the lower-cased string.
\<close>

theorem count_vector_sum:
  assumes "fit_transform (stemLyrics stem tracks stop_words) = Inr (words, vec)"
  shows "length vec = length tracks \<and>
         (\<forall>i<length tracks.
            sum_list (vec ! i) = length (analyzer (stemLyrics stem tracks stop_words ! i)))"
proof -
  let ?docs = "stemLyrics stem tracks stop_words"
  have len: "length ?docs = length tracks" by (simp add: stemLyrics_map)
  note w = fit_transform_words [OF assms]
  note sh = fit_transform_shape [OF assms]
  have "sum_list (vec ! i) = length (analyzer (?docs ! i))" if "i < length tracks" for i
  proof -
    have "set (analyzer (?docs ! i)) \<subseteq> set words"
      using that len w(2) by auto
    then have "sum_list (map (count_list (analyzer (?docs ! i))) words) = length (analyzer (?docs ! i))"
      by (rule sum_count_list_cover [OF w(1)])
    then show ?thesis using sh(3) [of i] that len by simp
  qed
  then show ?thesis using sh(1) len by simp
qed

theorem count_vector_sum_witness:
  "sum_list ([[1, 0, 0, 0], [0, 0, 1, 0], [1, 1, 0, 0], [0, 0, 0, 1]] ! 2) =
     length (analyzer (stemLyrics id_stem four_tracks [] ! 2))"
proof -
  have f: "fit_transform (stemLyrics id_stem four_tracks []) =
             Inr ([''damn'', ''hell'', ''hello'', ''sunshine''],
                  [[1, 0, 0, 0], [0, 0, 1, 0], [1, 1, 0, 0], [0, 0, 0, 1]])"
    by code_simp
  have "(2::nat) < length four_tracks" by (simp add: four_tracks_def)
  then show ?thesis using count_vector_sum [OF f] by blast
qed

text \<open>
  C1 as stated fails: the analyzer of \<^verbatim>\<open>CountVectorizer()\<close> drops the tokens of a single
  character. The normalized lyric \<open>love u\<close> has two whitespace-delimited tokens and its
  count-vector sums to one.
\<close>

theorem count_vector_sum_counterexample:
  "fit_transform (stemLyrics id_stem love_u_tracks []) = Inr ([''love''], [[1]]) \<and>
   split_whitespace (stemLyrics id_stem love_u_tracks [] ! 0) = [''love'', ''u''] \<and>
   sum_list ([[1]] ! 0) \<noteq> length (split_whitespace (stemLyrics id_stem love_u_tracks [] ! 0))"
  by code_simp

text \<open>
  C3. Whenever the vectorizer returns a vocabulary and vectors for the corpus, the loop of
  cell 7 completes, and it emits one pair per track in the order of the table: the pair
  of track \<open>i\<close> carries the label of track \<open>i\<close> and a dictionary whose keys are exactly
  the vocabulary, each token once, so it has as many entries as the vocabulary; the entry
  of a token is its count in the track, zero counts included.
\<close>

theorem featuresets_dense:
  assumes "fit_transform (stemLyrics stem tracks stop_words) = Inr (words, vec)"
  shows "\<exists>featuresets.
           prepare stem stop_words tracks = Inr (words, vec, featuresets) \<and>
           distinct words \<and>
           length featuresets = length tracks \<and>
           (\<forall>i<length tracks.
              snd (featuresets ! i) = explicit (tracks ! i) \<and>
              keys (fst (featuresets ! i)) = words \<and>
              length (fst (featuresets ! i)) = length words \<and>
              (\<forall>j<length words.
                 getitem (fst (featuresets ! i)) (words ! j) =
                   Inr (count_list (analyzer (stemLyrics stem tracks stop_words ! i)) (words ! j))))"
proof -
  let ?docs = "stemLyrics stem tracks stop_words"
  let ?y = "map explicit tracks"
  let ?fs = "map2 (\<lambda>row l. (zip words row, l)) vec ?y"
  have len: "length ?docs = length tracks" by (simp add: stemLyrics_map)
  note w = fit_transform_words [OF assms]
  note sh = fit_transform_shape [OF assms]
  have lv: "length vec = length ?y" using sh(1) len by simp
  have b: "build_featuresets words vec ?y = Inr ?fs"
    by (rule build_featuresets_zip [OF w(1) lv sh(2)])
  have p: "prepare stem stop_words tracks = Inr (words, vec, ?fs)"
    by (simp add: prepare_def Let_def assms b)
  have l: "length ?fs = length tracks" using lv by simp
  have row: "snd (?fs ! i) = explicit (tracks ! i) \<and>
             keys (fst (?fs ! i)) = words \<and>
             length (fst (?fs ! i)) = length words \<and>
             (\<forall>j<length words.
                getitem (fst (?fs ! i)) (words ! j) =
                  Inr (count_list (analyzer (?docs ! i)) (words ! j)))"
    if i: "i < length tracks" for i
  proof -
    have iv: "i < length vec" using i lv by simp
    then have r: "length (vec ! i) = length words" using sh(2) by simp
    have e: "?fs ! i = (zip words (vec ! i), explicit (tracks ! i))"
      using i iv by simp
    have v: "vec ! i = map (count_list (analyzer (?docs ! i))) words"
      using sh(3) [of i] i len by simp
    have "getitem (zip words (vec ! i)) (words ! j) =
            Inr (count_list (analyzer (?docs ! i)) (words ! j))" if "j < length words" for j
      using getitem_zip [OF w(1) r that] that by (simp add: v)
    then show ?thesis using r by (simp add: e keys_zip)
  qed
  show ?thesis
    using p w(1) l row by blast
qed

theorem featuresets_dense_witness:
  "prepare id_stem [] four_tracks =
     Inr ([''damn'', ''hell'', ''hello'', ''sunshine''],
          [[1, 0, 0, 0], [0, 0, 1, 0], [1, 1, 0, 0], [0, 0, 0, 1]], four_featuresets) \<and>
   length four_featuresets = length four_tracks"
proof -
  have f: "fit_transform (stemLyrics id_stem four_tracks []) =
             Inr ([''damn'', ''hell'', ''hello'', ''sunshine''],
                  [[1, 0, 0, 0], [0, 0, 1, 0], [1, 1, 0, 0], [0, 0, 0, 1]])"
    by code_simp
  have p: "prepare id_stem [] four_tracks =
     Inr ([''damn'', ''hell'', ''hello'', ''sunshine''],
          [[1, 0, 0, 0], [0, 0, 1, 0], [1, 1, 0, 0], [0, 0, 0, 1]], four_featuresets)"
    by code_simp
  from featuresets_dense [OF f] obtain fs where
    "prepare id_stem [] four_tracks =
       Inr ([''damn'', ''hell'', ''hello'', ''sunshine''],
            [[1, 0, 0, 0], [0, 0, 1, 0], [1, 1, 0, 0], [0, 0, 0, 1]], fs)"
    and "length fs = length four_tracks"
    by blast
  with p show ?thesis by simp
qed

text \<open>
  C8, as the code has it. For a corpus in which no normalized lyric string holds a token
  (zero tracks, or every normalized string empty, or only tokens of one character), the
  vectorizer raises \<^verbatim>\<open>ValueError\<close> for the empty vocabulary, so cell 7 stops there and the
  loop that builds the featuresets is not reached. That loop by itself accepts an empty
  vocabulary: it then yields an empty dictionary for every track.
\<close>

theorem empty_vocabulary_raises:
  assumes "\<forall>s\<in>set (stemLyrics stem tracks stop_words). analyzer s = []"
  shows "fit_transform (stemLyrics stem tracks stop_words) = Inl ValueError \<and>
         prepare stem stop_words tracks = Inl ValueError \<and>
         build_featuresets [] (map (\<lambda>t. []) tracks) (map explicit tracks) =
           Inr (map (\<lambda>t. ([], explicit t)) tracks)"
proof -
  have f: "fit_transform (stemLyrics stem tracks stop_words) = Inl ValueError"
    using assms by (simp add: fit_transform_raises)
  then have p: "prepare stem stop_words tracks = Inl ValueError"
    by (simp add: prepare_def Let_def)
  have "build_featuresets [] (map (\<lambda>t. []) tracks) (map explicit tracks) =
          Inr (map2 (\<lambda>row l. (zip [] row, l)) (map (\<lambda>t. []) tracks) (map explicit tracks))"
    by (rule build_featuresets_zip) auto
  also have "map2 (\<lambda>row l. (zip [] row, l)) (map (\<lambda>t. []) tracks) (map explicit tracks) =
               map (\<lambda>t. ([], explicit t)) tracks"
    by (intro nth_equalityI) auto
  finally show ?thesis using f p by simp
qed

theorem empty_vocabulary_raises_witness:
  "prepare id_stem [''the''] the_only_tracks = Inl ValueError \<and>
   build_featuresets [] [[]] [False] = Inr [([], False)]"
proof -
  have a: "\<forall>s\<in>set (stemLyrics id_stem the_only_tracks [''the'']). analyzer s = []"
    by code_simp
  have b: "map (\<lambda>t. []) the_only_tracks = [[]]" "map explicit the_only_tracks = [False]"
    "map (\<lambda>t. ([], explicit t)) the_only_tracks = [([], False)]"
    by (simp_all add: the_only_tracks_def)
  show ?thesis
    using empty_vocabulary_raises [OF a] by (simp add: b)
qed

text \<open>
  C8 as stated fails: with zero tracks, and with one track whose normalized lyric string
  is empty, the vectorizer raises instead of yielding an empty vocabulary.
\<close>

theorem empty_vocabulary_counterexample:
  "stemLyrics id_stem [] [] = [] \<and>
   fit_transform (stemLyrics id_stem [] []) = Inl ValueError \<and>
   prepare id_stem [] [] = Inl ValueError \<and>
   stemLyrics id_stem the_only_tracks [''the''] = [[]] \<and>
   fit_transform (stemLyrics id_stem the_only_tracks [''the'']) = Inl ValueError \<and>
   prepare id_stem [''the''] the_only_tracks = Inl ValueError \<and>
   fit_transform (stemLyrics id_stem [] []) \<noteq> Inr ([], []) \<and>
   fit_transform (stemLyrics id_stem the_only_tracks [''the'']) \<noteq> Inr ([], [[]])"
  by code_simp

section \<open>The feature selector\<close>

lemma map_of_setitem: "map_of (setitem d k v) = (map_of d)(k \<mapsto> v)"
  by (induction d) (auto simp: fun_eq_iff)

lemma keys_setitem:
  "keys (setitem d k v) = (if k \<in> set (keys d) then keys d else keys d @ [k])"
  by (induction d) (auto simp: keys_def)

lemma getitem_key: "k \<in> set (keys d) \<Longrightarrow> \<exists>v. getitem d k = Inr v"
proof -
  assume "k \<in> set (keys d)"
  then have "k \<in> dom (map_of d)" by (simp add: keys_def dom_map_of_conv_image_fst)
  then show ?thesis by (auto simp: getitem_def)
qed

lemma getitem_Inr: "getitem d k = Inr v \<longleftrightarrow> map_of d k = Some v"
  by (simp add: getitem_def split: option.splits)

lemma newFeatureDict_loop_total:
  assumes "set ks \<subseteq> set (keys d)"
  shows "\<exists>r. newFeatureDict_loop mif d ks new = Inr r \<and>
             (\<forall>w. map_of r w =
                (if w \<in> set ks \<and> w \<in> set mif then map_of d w else map_of new w)) \<and>
             set (keys r) = set (keys new) \<union> (set ks \<inter> set mif) \<and>
             (distinct (keys new) \<longrightarrow> distinct (keys r))"
  using assms
proof (induction ks arbitrary: new)
  case Nil
  then show ?case by simp
next
  case (Cons word ks)
  then have sub: "set ks \<subseteq> set (keys d)" and mem: "word \<in> set (keys d)" by auto
  show ?case
  proof (cases "word \<in> set mif")
    case False
    from Cons.IH [OF sub, of new] obtain r where
      r: "newFeatureDict_loop mif d ks new = Inr r"
        "\<forall>w. map_of r w = (if w \<in> set ks \<and> w \<in> set mif then map_of d w else map_of new w)"
        "set (keys r) = set (keys new) \<union> (set ks \<inter> set mif)"
        "distinct (keys new) \<longrightarrow> distinct (keys r)"
      by blast
    have "newFeatureDict_loop mif d (word # ks) new = Inr r" using False r(1) by simp
    moreover have "\<forall>w. map_of r w =
        (if w \<in> set (word # ks) \<and> w \<in> set mif then map_of d w else map_of new w)"
      using r(2) False by auto
    moreover have "set (keys r) = set (keys new) \<union> (set (word # ks) \<inter> set mif)"
      using r(3) False by auto
    ultimately show ?thesis using r(4) by blast
  next
    case True
    from getitem_key [OF mem] obtain c where c: "getitem d word = Inr c" by blast
    then have mc: "map_of d word = Some c" by (simp add: getitem_Inr)
    let ?new = "setitem new word c"
    from Cons.IH [OF sub, of ?new] obtain r where
      r: "newFeatureDict_loop mif d ks ?new = Inr r"
        "\<forall>w. map_of r w = (if w \<in> set ks \<and> w \<in> set mif then map_of d w else map_of ?new w)"
        "set (keys r) = set (keys ?new) \<union> (set ks \<inter> set mif)"
        "distinct (keys ?new) \<longrightarrow> distinct (keys r)"
      by blast
    have "newFeatureDict_loop mif d (word # ks) new = Inr r" using True c r(1) by simp
    moreover have "\<forall>w. map_of r w =
        (if w \<in> set (word # ks) \<and> w \<in> set mif then map_of d w else map_of new w)"
      using r(2) True mc by (auto simp: map_of_setitem)
    moreover have "set (keys r) = set (keys new) \<union> (set (word # ks) \<inter> set mif)"
      using r(3) True by (auto simp: keys_setitem split: if_splits)
    moreover have "distinct (keys new) \<longrightarrow> distinct (keys r)"
      using r(4) by (auto simp: keys_setitem)
    ultimately show ?thesis by blast
  qed
qed

text \<open>The dictionary the inner loop builds from a feature dictionary.\<close>

lemma reduced_dict:
  "\<exists>r. newFeatureDict_loop mif d (keys d) [] = Inr r \<and>
       (\<forall>w. map_of r w = (if w \<in> set mif then map_of d w else None)) \<and>
       set (keys r) = set (keys d) \<inter> set mif \<and>
       distinct (keys r) \<and> length r \<le> length mif"
proof -
  have "set (keys d) \<subseteq> set (keys d)" by simp
  from newFeatureDict_loop_total [OF this, of mif "[]"] obtain r where
    r: "newFeatureDict_loop mif d (keys d) [] = Inr r"
      "\<forall>w. map_of r w = (if w \<in> set (keys d) \<and> w \<in> set mif then map_of d w else map_of [] w)"
      "set (keys r) = set (keys ([] :: nat dict)) \<union> (set (keys d) \<inter> set mif)"
      "distinct (keys ([] :: nat dict)) \<longrightarrow> distinct (keys r)"
    by blast
  have m: "\<forall>w. map_of r w = (if w \<in> set mif then map_of d w else None)"
  proof
    fix w
    have "w \<notin> set (keys d) \<Longrightarrow> map_of d w = None"
      by (simp add: keys_def map_of_eq_None_iff)
    then show "map_of r w = (if w \<in> set mif then map_of d w else None)"
      using r(2) by auto
  qed
  have s: "set (keys r) = set (keys d) \<inter> set mif" and dist: "distinct (keys r)"
    using r(3,4) by (simp_all add: keys_def)
  have "length r = length (keys r)" by (simp add: keys_def)
  also have "\<dots> = card (set (keys r))" using dist by (simp add: distinct_card)
  also have "\<dots> \<le> card (set mif)" using s by (simp add: card_mono)
  also have "\<dots> \<le> length mif" by (rule card_length)
  finally have "length r \<le> length mif" .
  with r(1) m s dist show ?thesis by blast
qed

lemma informative_loop_append:
  "\<exists>out. informative_loop mif fs acc = Inr (acc @ out) \<and>
          length out = length fs \<and>
          (\<forall>i<length fs.
             snd (out ! i) = snd (fs ! i) \<and>
             newFeatureDict_loop mif (fst (fs ! i)) (keys (fst (fs ! i))) [] = Inr (fst (out ! i)))"
proof (induction fs arbitrary: acc)
  case Nil
  then show ?case by simp
next
  case (Cons p fs)
  obtain d l where p: "p = (d, l)" by (cases p)
  from reduced_dict [of mif d] obtain r where
    r: "newFeatureDict_loop mif d (keys d) [] = Inr r" by blast
  from Cons.IH [of "acc @ [(r, l)]"] obtain out where
    out: "informative_loop mif fs (acc @ [(r, l)]) = Inr ((acc @ [(r, l)]) @ out)"
      "length out = length fs"
      "\<forall>i<length fs. snd (out ! i) = snd (fs ! i) \<and>
         newFeatureDict_loop mif (fst (fs ! i)) (keys (fst (fs ! i))) [] = Inr (fst (out ! i))"
    by blast
  let ?out = "(r, l) # out"
  have "informative_loop mif (p # fs) acc = Inr (acc @ ?out)"
    using p r out(1) by simp
  moreover have "length ?out = length (p # fs)" using out(2) by simp
  moreover have "\<forall>i<length (p # fs). snd (?out ! i) = snd ((p # fs) ! i) \<and>
      newFeatureDict_loop mif (fst ((p # fs) ! i)) (keys (fst ((p # fs) ! i))) [] =
        Inr (fst (?out ! i))"
  proof (intro allI impI)
    fix i assume "i < length (p # fs)"
    then show "snd (?out ! i) = snd ((p # fs) ! i) \<and>
      newFeatureDict_loop mif (fst ((p # fs) ! i)) (keys (fst ((p # fs) ! i))) [] =
        Inr (fst (?out ! i))"
      using p r out(3) by (cases i) auto
  qed
  ultimately show ?case by blast
qed

text \<open>
  C4. The selector never raises. It returns one pair per input pair, in order and with
  the same label; the keys of each new dictionary are the keys of the old one that are
  in the list of most informative names, each once, so there are at most as many as the
  list is long (at most K, the number of names requested); a name outside the list is
  absent from the new dictionary, and a retained name has the count it had.
\<close>

theorem select_features_reduces:
  "\<exists>out. select_features most_informative_features featuresets = Inr out \<and>
          length out = length featuresets \<and>
          (\<forall>i<length featuresets.
             snd (out ! i) = snd (featuresets ! i) \<and>
             set (keys (fst (out ! i))) \<subseteq> set most_informative_features \<and>
             set (keys (fst (out ! i))) =
               set (keys (fst (featuresets ! i))) \<inter> set most_informative_features \<and>
             distinct (keys (fst (out ! i))) \<and>
             length (fst (out ! i)) \<le> length most_informative_features \<and>
             (\<forall>w. map_of (fst (out ! i)) w =
                (if w \<in> set most_informative_features
                 then map_of (fst (featuresets ! i)) w else None)))"
proof -
  from informative_loop_append [of most_informative_features featuresets "[]"]
  obtain out where
    out: "select_features most_informative_features featuresets = Inr out"
      "length out = length featuresets"
      "\<forall>i<length featuresets. snd (out ! i) = snd (featuresets ! i) \<and>
         newFeatureDict_loop most_informative_features (fst (featuresets ! i))
           (keys (fst (featuresets ! i))) [] = Inr (fst (out ! i))"
    by (auto simp: select_features_def)
  have "snd (out ! i) = snd (featuresets ! i) \<and>
        set (keys (fst (out ! i))) \<subseteq> set most_informative_features \<and>
        set (keys (fst (out ! i))) =
          set (keys (fst (featuresets ! i))) \<inter> set most_informative_features \<and>
        distinct (keys (fst (out ! i))) \<and>
        length (fst (out ! i)) \<le> length most_informative_features \<and>
        (\<forall>w. map_of (fst (out ! i)) w =
           (if w \<in> set most_informative_features
            then map_of (fst (featuresets ! i)) w else None))"
    if "i < length featuresets" for i
  proof -
    from out(3) that have
      e: "newFeatureDict_loop most_informative_features (fst (featuresets ! i))
            (keys (fst (featuresets ! i))) [] = Inr (fst (out ! i))"
      and l: "snd (out ! i) = snd (featuresets ! i)" by auto
    from reduced_dict [of most_informative_features "fst (featuresets ! i)"] e l
    show ?thesis by auto
  qed
  with out(1,2) show ?thesis by blast
qed

theorem select_features_reduces_witness:
  "select_features [''damn'', ''hello''] four_featuresets =
     Inr [([(''damn'', 1), (''hello'', 0)], True), ([(''damn'', 0), (''hello'', 1)], False),
          ([(''damn'', 1), (''hello'', 0)], True), ([(''damn'', 0), (''hello'', 0)], False)] \<and>
   length [([(''damn'', 1::nat), (''hello'', 0)], True), ([(''damn'', 0), (''hello'', 1)], False),
          ([(''damn'', 1), (''hello'', 0)], True), ([(''damn'', 0), (''hello'', 0)], False)] =
     length four_featuresets"
proof -
  have v: "select_features [''damn'', ''hello''] four_featuresets =
     Inr [([(''damn'', 1), (''hello'', 0)], True), ([(''damn'', 0), (''hello'', 1)], False),
          ([(''damn'', 1), (''hello'', 0)], True), ([(''damn'', 0), (''hello'', 0)], False)]"
    by code_simp
  from select_features_reduces [of "[''damn'', ''hello'']" four_featuresets]
  obtain out where "select_features [''damn'', ''hello''] four_featuresets = Inr out"
    and "length out = length four_featuresets"
    by blast
  with v show ?thesis by simp
qed

section \<open>The store\<close>

lemma newFeatureDict_loop_st_pure:
  assumes "src \<noteq> new" and "new < length h"
  shows "newFeatureDict_loop_st mif src new ks h =
           (case newFeatureDict_loop mif (h ! src) ks (h ! new) of
              Inl e \<Rightarrow> Inl e
            | Inr r \<Rightarrow> Inr (h[new := r]))"
  using assms
proof (induction ks arbitrary: h)
  case Nil
  then show ?case by simp
next
  case (Cons word ks)
  show ?case
  proof (cases "word \<in> set mif")
    case False
    then show ?thesis using Cons by simp
  next
    case True
    show ?thesis
    proof (cases "getitem (h ! src) word")
      case (Inl e)
      then show ?thesis using True by simp
    next
      case (Inr c)
      let ?h = "h[new := setitem (h ! new) word c]"
      have "newFeatureDict_loop_st mif src new ks ?h =
              (case newFeatureDict_loop mif (?h ! src) ks (?h ! new) of
                 Inl e \<Rightarrow> Inl e
               | Inr r \<Rightarrow> Inr (?h[new := r]))"
        using Cons.prems by (intro Cons.IH) auto
      then show ?thesis using True Inr Cons.prems by (simp split: sum.splits)
    qed
  qed
qed

lemma informative_loop_st_frame:
  assumes "\<forall>p\<in>set fs. fst p < length h"
  shows "\<exists>h' out. informative_loop_st mif fs h acc = Inr (h', acc @ out) \<and>
           length h \<le> length h' \<and> take (length h) h' = h \<and>
           length out = length fs \<and>
           (\<forall>i<length fs. length h \<le> fst (out ! i) \<and> fst (out ! i) < length h' \<and>
              snd (out ! i) = snd (fs ! i) \<and>
              newFeatureDict_loop mif (h ! fst (fs ! i)) (keys (h ! fst (fs ! i))) [] =
                Inr (h' ! fst (out ! i)))"
  using assms
proof (induction fs arbitrary: h acc)
  case Nil
  then show ?case by simp
next
  case (Cons p fs)
  obtain a l where p: "p = (a, l)" by (cases p)
  with Cons.prems have a: "a < length h" by simp
  let ?new = "length h"
  let ?h1 = "h @ [[]]"
  from reduced_dict [of mif "h ! a"] obtain r where
    r: "newFeatureDict_loop mif (h ! a) (keys (h ! a)) [] = Inr r" by blast
  have h1a: "?h1 ! a = h ! a" using a by (simp add: nth_append)
  have "newFeatureDict_loop_st mif a ?new (keys (?h1 ! a)) ?h1 =
          (case newFeatureDict_loop mif (?h1 ! a) (keys (?h1 ! a)) (?h1 ! ?new) of
             Inl e \<Rightarrow> Inl e
           | Inr r \<Rightarrow> Inr (?h1[?new := r]))"
    using a by (intro newFeatureDict_loop_st_pure) auto
  then have inner: "newFeatureDict_loop_st mif a ?new (keys (?h1 ! a)) ?h1 = Inr (h @ [r])"
    using r by (simp add: h1a)
  let ?h2 = "h @ [r]"
  have "\<forall>q\<in>set fs. fst q < length ?h2" using Cons.prems by auto
  from Cons.IH [OF this, of "acc @ [(?new, l)]"] obtain h' out where
    ih: "informative_loop_st mif fs ?h2 (acc @ [(?new, l)]) = Inr (h', (acc @ [(?new, l)]) @ out)"
      "length ?h2 \<le> length h'" "take (length ?h2) h' = ?h2" "length out = length fs"
      "\<forall>i<length fs. length ?h2 \<le> fst (out ! i) \<and> fst (out ! i) < length h' \<and>
          snd (out ! i) = snd (fs ! i) \<and>
          newFeatureDict_loop mif (?h2 ! fst (fs ! i)) (keys (?h2 ! fst (fs ! i))) [] =
            Inr (h' ! fst (out ! i))"
    by blast
  let ?out = "(?new, l) # out"
  have run: "informative_loop_st mif (p # fs) h acc = Inr (h', acc @ ?out)"
    using p inner ih(1) by (simp add: Let_def)
  have len: "length h \<le> length h'" using ih(2) by simp
  have tk: "take (length h) h' = h"
  proof -
    have "take (length h) h' = take (length h) (take (length ?h2) h')" by simp
    also have "\<dots> = h" by (simp only: ih(3)) simp
    finally show ?thesis .
  qed
  have new: "h' ! ?new = r"
  proof -
    have "h' ! ?new = take (length ?h2) h' ! ?new" by simp
    also have "\<dots> = r" by (simp only: ih(3)) simp
    finally show ?thesis .
  qed
  have rows: "\<forall>i<length (p # fs). length h \<le> fst (?out ! i) \<and> fst (?out ! i) < length h' \<and>
      snd (?out ! i) = snd ((p # fs) ! i) \<and>
      newFeatureDict_loop mif (h ! fst ((p # fs) ! i)) (keys (h ! fst ((p # fs) ! i))) [] =
        Inr (h' ! fst (?out ! i))"
  proof (intro allI impI)
    fix i assume i: "i < length (p # fs)"
    show "length h \<le> fst (?out ! i) \<and> fst (?out ! i) < length h' \<and>
      snd (?out ! i) = snd ((p # fs) ! i) \<and>
      newFeatureDict_loop mif (h ! fst ((p # fs) ! i)) (keys (h ! fst ((p # fs) ! i))) [] =
        Inr (h' ! fst (?out ! i))"
    proof (cases i)
      case 0
      then show ?thesis using p r new ih(2) by simp
    next
      case (Suc j)
      then have j: "j < length fs" using i by simp
      then have "fst (fs ! j) < length h" using Cons.prems by simp
      then have "?h2 ! fst (fs ! j) = h ! fst (fs ! j)" by (simp add: nth_append)
      then show ?thesis using Suc j ih(5) by auto
    qed
  qed
  show ?case using run len tk ih(4) rows by (intro exI [of _ h'] exI [of _ ?out]) simp
qed

lemma deref_nth:
  "i < length fs \<Longrightarrow> deref h fs ! i = (h ! fst (fs ! i), snd (fs ! i))"
  by (simp add: deref_def case_prod_beta)

lemma deref_frame:
  assumes "\<forall>p\<in>set fs. fst p < length h" and "take (length h) h' = h"
  shows "deref h' fs = deref h fs"
proof -
  have "h' ! a = h ! a" if "a < length h" for a
  proof -
    have "h ! a = take (length h) h' ! a" by (simp only: assms(2))
    then show ?thesis using that by simp
  qed
  then show ?thesis using assms(1) by (auto simp: deref_def)
qed


lemma frame_trans:
  "take (length a) b = a \<Longrightarrow> take (length b) c = b \<Longrightarrow> take (length a) c = a"
proof -
  assume ab: "take (length a) b = a" and bc: "take (length b) c = b"
  have "length (take (length a) b) = length a" by (simp only: ab)
  then have "length a \<le> length b" by simp
  then have "take (length a) c = take (length a) (take (length b) c)"
    by (simp add: min_def)
  then show ?thesis using ab bc by simp
qed

lemma predictY_loop_st_frame:
  assumes "\<forall>h c a. take (length h) (fst (classify h c a)) = h"
  shows "take (length h) (fst (predictY_loop_st classify classifier features h predictY)) = h"
proof (induction features arbitrary: h predictY)
  case Nil
  then show ?case by simp
next
  case (Cons a features)
  obtain h' y where c: "classify h classifier a = (h', y)" by (cases "classify h classifier a")
  have one: "take (length h) h' = h" using assms c by (metis fst_conv)
  have rest: "take (length h')
      (fst (predictY_loop_st classify classifier features h' (predictY @ [y]))) = h'"
    by (rule Cons.IH)
  show ?case using frame_trans [OF one rest] c by simp
qed

lemma naive_bayes_st_frame:
  assumes split: "\<forall>h fs. take (length h) (fst (split h fs)) = h"
    and train: "\<forall>h ts. take (length h) (fst (train h ts)) = h"
    and classify: "\<forall>h c a. take (length h) (fst (classify h c a)) = h"
  shows "take (length h) (fst (naive_bayes_st split train classify h featuresets printMetrics)) = h"
proof -
  obtain h1 r where s: "split h featuresets = (h1, r)" by (cases "split h featuresets")
  have f1: "take (length h) h1 = h" using split s by (metis fst_conv)
  show ?thesis
  proof (cases r)
    case (Inl e)
    then show ?thesis using s f1 by (simp add: naive_bayes_st_def)
  next
    case (Inr pr)
    obtain trainSet testSet where pr: "pr = (trainSet, testSet)" by (cases pr)
    obtain h2 classifier where t: "train h1 trainSet = (h2, classifier)"
      by (cases "train h1 trainSet")
    have "take (length h1) h2 = h1" using train t by (metis fst_conv)
    from frame_trans [OF f1 this] have f2: "take (length h) h2 = h" .
    show ?thesis
    proof (cases "testSet = []")
      case True
      then show ?thesis using s Inr pr t f2 by (simp add: naive_bayes_st_def)
    next
      case False
      obtain h3 predictY where
        l: "predictY_loop_st classify classifier (map fst testSet) h2 [] = (h3, predictY)"
        by (cases "predictY_loop_st classify classifier (map fst testSet) h2 []")
      have "take (length h2) h3 = h2"
        using predictY_loop_st_frame [OF classify, of h2 classifier "map fst testSet" "[]"] l
        by simp
      from frame_trans [OF f2 this] have f3: "take (length h) h3 = h" .
      show ?thesis using s Inr pr t False l f3
        by (simp add: naive_bayes_st_def Let_def split: prod.splits)
    qed
  qed
qed

lemma sk_split_st_frame: "take (length h) (fst (sk_split_st perm h fs)) = h"
  by (simp add: sk_split_st_def)

lemma nltk_train_st_frame: "take (length h) (fst (nltk_train_st nb_train h ts)) = h"
  by (simp add: nltk_train_st_def)

lemma discard_loop_st_frame:
  "n \<le> copy \<Longrightarrow> take n (discard_loop_st seen copy ks h) = take n h"
  by (induction ks arbitrary: h) auto

lemma nltk_classify_st_frame:
  "take (length h) (fst (nltk_classify_st known decide h classifier a)) = h"
  by (simp add: nltk_classify_st_def Let_def discard_loop_st_frame)


lemma train_test_split_deref:
  assumes "set perm \<subseteq> {..<length fs}"
  shows "train_test_split perm (deref h fs) =
           (case train_test_split perm fs of
              Inl e \<Rightarrow> Inl e
            | Inr (trainSet, testSet) \<Rightarrow> Inr (deref h trainSet, deref h testSet))"
proof -
  have pick: "map (\<lambda>i. deref h fs ! i) idx = deref h (map (\<lambda>i. fs ! i) idx)"
    if "set idx \<subseteq> set perm" for idx
  proof -
    have "\<forall>i\<in>set idx. i < length fs" using that assms by auto
    then have "\<forall>i\<in>set idx. deref h fs ! i = (h ! fst (fs ! i), snd (fs ! i))"
      by (simp add: deref_nth)
    then show ?thesis by (simp add: deref_def case_prod_beta)
  qed
  have l: "length (deref h fs) = length fs" by (simp add: deref_def)
  have a: "set (take n (drop m perm)) \<subseteq> set perm" for n m
    by (meson set_drop_subset set_take_subset subset_trans)
  have b: "set (take n perm) \<subseteq> set perm" for n
    by (rule set_take_subset)
  show ?thesis
    unfolding train_test_split_def Let_def l
    by (simp add: pick [OF a] pick [OF b])
qed

lemma discard_loop_st_value:
  "copy < length h \<Longrightarrow>
   discard_loop_st seen copy ks h =
     h[copy := filter (\<lambda>p. seen (fst p) \<or> fst p \<notin> set ks) (h ! copy)]"
proof (induction ks arbitrary: h)
  case Nil
  then show ?case by simp
next
  case (Cons fname ks)
  show ?case
  proof (cases "seen fname")
    case True
    have "filter (\<lambda>p. seen (fst p) \<or> fst p \<notin> set ks) (h ! copy) =
          filter (\<lambda>p. seen (fst p) \<or> fst p \<notin> set (fname # ks)) (h ! copy)"
      using True by (intro filter_cong) auto
    then show ?thesis using True Cons by simp
  next
    case False
    let ?h = "h[copy := delitem (h ! copy) fname]"
    have "filter (\<lambda>p. seen (fst p) \<or> fst p \<notin> set ks) (delitem (h ! copy) fname) =
          filter (\<lambda>p. seen (fst p) \<or> fst p \<notin> set (fname # ks)) (h ! copy)"
      using False unfolding delitem_def filter_filter by (intro filter_cong) auto
    moreover have "discard_loop_st seen copy ks ?h =
        ?h[copy := filter (\<lambda>p. seen (fst p) \<or> fst p \<notin> set ks) (?h ! copy)]"
      using Cons.prems by (intro Cons.IH) simp
    ultimately show ?thesis using False Cons.prems by simp
  qed
qed

lemma nltk_classify_st_value:
  "snd (nltk_classify_st known decide h classifier a) =
     decide classifier (filter (\<lambda>p. known classifier (fst p)) (h ! a))"
proof -
  have "filter (\<lambda>p. known classifier (fst p) \<or> fst p \<notin> set (keys (h ! a))) (h ! a) =
        filter (\<lambda>p. known classifier (fst p)) (h ! a)"
    by (intro filter_cong) (auto simp: keys_def)
  then show ?thesis
    by (simp add: nltk_classify_st_def Let_def discard_loop_st_value)
qed

lemma predictY_loop_st_value:
  "\<forall>a\<in>set features. a < length h \<Longrightarrow>
   snd (predictY_loop_st (nltk_classify_st known decide) classifier features h predictY) =
     predictY @
     map (\<lambda>a. decide classifier (filter (\<lambda>p. known classifier (fst p)) (h ! a))) features"
proof (induction features arbitrary: h predictY)
  case Nil
  then show ?case by simp
next
  case (Cons a features)
  obtain h' y where c: "nltk_classify_st known decide h classifier a = (h', y)"
    by (cases "nltk_classify_st known decide h classifier a")
  have y: "y = decide classifier (filter (\<lambda>p. known classifier (fst p)) (h ! a))"
    using nltk_classify_st_value [of known decide h classifier a] c by simp
  have fr: "take (length h) h' = h"
    using nltk_classify_st_frame [of h known decide classifier a] c by simp
  have same: "h' ! b = h ! b" if "b < length h" for b
  proof -
    have "h ! b = take (length h) h' ! b" by (simp only: fr)
    then show ?thesis using that by simp
  qed
  have "length (take (length h) h') = length h" by (simp only: fr)
  then have le: "length h \<le> length h'" by simp
  have "\<forall>b\<in>set features. b < length h'" using Cons.prems le by auto
  from Cons.IH [OF this, of "predictY @ [y]"]
  have "snd (predictY_loop_st (nltk_classify_st known decide) classifier features h'
               (predictY @ [y])) =
        (predictY @ [y]) @
        map (\<lambda>a. decide classifier (filter (\<lambda>p. known classifier (fst p)) (h' ! a))) features" .
  moreover have
    "map (\<lambda>a. decide classifier (filter (\<lambda>p. known classifier (fst p)) (h' ! a))) features =
     map (\<lambda>a. decide classifier (filter (\<lambda>p. known classifier (fst p)) (h ! a))) features"
    using Cons.prems same by (intro map_cong) auto
  ultimately show ?case using c y by simp
qed

lemma train_test_split_subset:
  assumes "train_test_split perm fs = Inr (trainSet, testSet)"
    and "set perm \<subseteq> {..<length fs}"
  shows "set testSet \<subseteq> set fs"
proof -
  obtain k where "testSet = map (\<lambda>i. fs ! i) (take k perm)"
    using assms(1) unfolding train_test_split_def Let_def
    by (auto split: if_splits)
  moreover have "set (take k perm) \<subseteq> {..<length fs}"
    using assms(2) set_take_subset by fastforce
  ultimately show ?thesis by auto
qed

text \<open>
  With the library calls as the libraries implement them, the store model computes what
  the value model computes on the featuresets that the references denote.
\<close>

lemma naive_bayes_st_result:
  assumes refs: "\<forall>p\<in>set featuresets. fst p < length h"
    and perm: "set perm \<subseteq> {..<length featuresets}"
  shows "snd (naive_bayes_st (sk_split_st perm) (nltk_train_st nb_train)
                (nltk_classify_st known decide) h featuresets printMetrics) =
         naive_bayes nb_train
           (\<lambda>classifier d. decide classifier (filter (\<lambda>p. known classifier (fst p)) d))
           perm (deref h featuresets) printMetrics"
proof (cases "train_test_split perm featuresets")
  case (Inl e)
  then show ?thesis
    by (simp add: naive_bayes_st_def naive_bayes_def sk_split_st_def
        train_test_split_deref [OF perm])
next
  case (Inr pr)
  obtain trainSet testSet where pr: "pr = (trainSet, testSet)" by (cases pr)
  have sp: "train_test_split perm (deref h featuresets) =
              Inr (deref h trainSet, deref h testSet)"
    using Inr pr by (simp add: train_test_split_deref [OF perm])
  show ?thesis
  proof (cases "testSet = []")
    case True
    then show ?thesis using Inr pr sp
      by (simp add: naive_bayes_st_def naive_bayes_def sk_split_st_def nltk_train_st_def
          deref_def)
  next
    case False
    let ?c = "nb_train (deref h trainSet)"
    have "set testSet \<subseteq> set featuresets"
      using train_test_split_subset [OF Inr [unfolded pr] perm] .
    then have "\<forall>a\<in>set (map fst testSet). a < length h" using refs by auto
    from predictY_loop_st_value [OF this, of known decide ?c "[]"]
    have pv: "snd (predictY_loop_st (nltk_classify_st known decide) ?c (map fst testSet) h []) =
      map (\<lambda>a. decide ?c (filter (\<lambda>p. known ?c (fst p)) (h ! a))) (map fst testSet)"
      by simp
    obtain h3 predictY where
      l: "predictY_loop_st (nltk_classify_st known decide) ?c (map fst testSet) h [] =
            (h3, predictY)"
      by (cases "predictY_loop_st (nltk_classify_st known decide) ?c (map fst testSet) h []")
    have py: "predictY =
      map (\<lambda>d. decide ?c (filter (\<lambda>p. known ?c (fst p)) d)) (map fst (deref h testSet))"
      using pv l by (simp add: deref_def comp_def case_prod_beta)
    have ty: "map snd (deref h testSet) = map snd testSet"
      by (simp add: deref_def comp_def case_prod_beta)
    have ne: "deref h testSet \<noteq> []" using False by (simp add: deref_def)
    show ?thesis
      using Inr pr sp False ne l
      by (simp add: naive_bayes_st_def naive_bayes_def sk_split_st_def nltk_train_st_def
          Let_def py ty split: prod.splits)
  qed
qed

text \<open>
  The library calls as the libraries implement them leave every object that existed
  before the call as it was.
\<close>

lemma library_calls_frame:
  "\<forall>h fs. take (length h) (fst (sk_split_st perm h fs)) = h"
  "\<forall>h ts. take (length h) (fst (nltk_train_st nb_train h ts)) = h"
  "\<forall>h c a. take (length h) (fst (nltk_classify_st known decide h c a)) = h"
  by (simp_all add: sk_split_st_frame nltk_train_st_frame nltk_classify_st_frame)

text \<open>
  C9. Neither operation changes a dictionary that existed before it ran. For
  \<open>naive_bayes\<close>: whenever each of the three library calls leaves the objects that
  existed before it as they were (the calls may allocate, and write to what they
  allocate, as \<^verbatim>\<open>classify\<close> does to its copy), every object of the store before the
  call of \<open>naive_bayes\<close> is unchanged after it, and the pairs of \<open>featuresets\<close> denote
  the same keys, counts and labels; and this is so, with no assumption, for the library
  calls as the libraries implement them. The selector only appends to the store: the
  dictionaries it returns live at fresh addresses, every earlier object is what it was,
  and so the pairs of the original \<open>featuresets\<close> list denote the same keys, counts and
  labels afterwards. The dictionaries at the fresh addresses are those of
  \<open>select_features\<close> on the denoted featuresets.
\<close>

theorem inputs_not_mutated:
  assumes "\<forall>p\<in>set featuresets. fst p < length h"
    and "\<forall>h fs. take (length h) (fst (split h fs)) = h"
    and "\<forall>h ts. take (length h) (fst (train h ts)) = h"
    and "\<forall>h c a. take (length h) (fst (classify h c a)) = h"
  shows "take (length h)
           (fst (naive_bayes_st split train classify h featuresets printMetrics)) = h \<and>
         deref (fst (naive_bayes_st split train classify h featuresets printMetrics))
           featuresets = deref h featuresets \<and>
         take (length h)
           (fst (naive_bayes_st (sk_split_st perm) (nltk_train_st nb_train)
                  (nltk_classify_st known decide) h featuresets printMetrics)) = h \<and>
         deref (fst (naive_bayes_st (sk_split_st perm) (nltk_train_st nb_train)
                  (nltk_classify_st known decide) h featuresets printMetrics))
           featuresets = deref h featuresets \<and>
         (\<exists>h' out.
            select_features_st most_informative_features h featuresets = Inr (h', out) \<and>
            take (length h) h' = h \<and>
            deref h' featuresets = deref h featuresets \<and>
            (\<forall>p\<in>set out. length h \<le> fst p \<and> fst p < length h') \<and>
            select_features most_informative_features (deref h featuresets) =
              Inr (deref h' out))"
proof -
  have nb: "take (length h)
      (fst (naive_bayes_st split train classify h featuresets printMetrics)) = h"
    by (rule naive_bayes_st_frame [OF assms(2) assms(3) assms(4)])
  have nd: "deref (fst (naive_bayes_st split train classify h featuresets printMetrics))
           featuresets = deref h featuresets"
    by (rule deref_frame [OF assms(1) nb])
  have lb: "take (length h)
      (fst (naive_bayes_st (sk_split_st perm) (nltk_train_st nb_train)
             (nltk_classify_st known decide) h featuresets printMetrics)) = h"
    by (rule naive_bayes_st_frame [OF library_calls_frame])
  have lbd: "deref (fst (naive_bayes_st (sk_split_st perm) (nltk_train_st nb_train)
             (nltk_classify_st known decide) h featuresets printMetrics))
           featuresets = deref h featuresets"
    by (rule deref_frame [OF assms(1) lb])
  from informative_loop_st_frame [OF assms(1), of most_informative_features "[]"]
  obtain h' out where
    st: "select_features_st most_informative_features h featuresets = Inr (h', out)"
      "take (length h) h' = h" "length out = length featuresets"
      "\<forall>i<length featuresets. length h \<le> fst (out ! i) \<and> fst (out ! i) < length h' \<and>
          snd (out ! i) = snd (featuresets ! i) \<and>
          newFeatureDict_loop most_informative_features (h ! fst (featuresets ! i))
            (keys (h ! fst (featuresets ! i))) [] = Inr (h' ! fst (out ! i))"
    by (auto simp: select_features_st_def)
  have fr: "deref h' featuresets = deref h featuresets"
    by (rule deref_frame [OF assms(1) st(2)])
  have fresh: "\<forall>p\<in>set out. length h \<le> fst p \<and> fst p < length h'"
  proof
    fix p assume "p \<in> set out"
    then obtain i where "i < length out" "out ! i = p" by (auto simp: in_set_conv_nth)
    then show "length h \<le> fst p \<and> fst p < length h'" using st(3,4) by auto
  qed
  from informative_loop_append [of most_informative_features "deref h featuresets" "[]"]
  obtain pout where
    pu: "select_features most_informative_features (deref h featuresets) = Inr pout"
      "length pout = length (deref h featuresets)"
      "\<forall>i<length (deref h featuresets). snd (pout ! i) = snd (deref h featuresets ! i) \<and>
         newFeatureDict_loop most_informative_features (fst (deref h featuresets ! i))
           (keys (fst (deref h featuresets ! i))) [] = Inr (fst (pout ! i))"
    by (auto simp: select_features_def)
  have ld: "length (deref h featuresets) = length featuresets" by (simp add: deref_def)
  have "pout = deref h' out"
  proof (rule nth_equalityI)
    show "length pout = length (deref h' out)"
      using pu(2) ld st(3) by (simp add: deref_def)
  next
    fix i assume "i < length pout"
    then have i: "i < length featuresets" using pu(2) ld by simp
    from pu(3) i ld have
      "snd (pout ! i) = snd (featuresets ! i)"
      "newFeatureDict_loop most_informative_features (h ! fst (featuresets ! i))
           (keys (h ! fst (featuresets ! i))) [] = Inr (fst (pout ! i))"
      by (simp_all add: deref_nth)
    moreover from st(4) i have
      "snd (out ! i) = snd (featuresets ! i)"
      "newFeatureDict_loop most_informative_features (h ! fst (featuresets ! i))
            (keys (h ! fst (featuresets ! i))) [] = Inr (h' ! fst (out ! i))"
      by simp_all
    ultimately have "pout ! i = (h' ! fst (out ! i), snd (out ! i))"
      by (simp add: prod_eq_iff)
    then show "pout ! i = deref h' out ! i"
      using i st(3) by (simp add: deref_nth)
  qed
  with pu(1) have "select_features most_informative_features (deref h featuresets) =
      Inr (deref h' out)" by simp
  with nb nd lb lbd st(1,2) fr fresh show ?thesis by blast
qed

theorem inputs_not_mutated_witness:
  "naive_bayes_st (sk_split_st [0, 1, 2]) (nltk_train_st damn_train)
     (nltk_classify_st damn_known damn_decide) three_store three_refs False =
     (three_store @ [[(''damn'', 1)]], [],
      Inr (([''damn''], False),
           [(''precision'', FloatArr [1]), (''recall'', FloatArr [1]),
            (''f-score'', FloatArr [1]), (''support'', IntArr [1])])) \<and>
   take (length three_store)
     (fst (naive_bayes_st (sk_split_st [0, 1, 2]) (nltk_train_st damn_train)
            (nltk_classify_st damn_known damn_decide) three_store three_refs False)) =
     three_store \<and>
   select_features_st [''damn''] three_store three_refs =
     Inr (three_store @ [[(''damn'', 1)], [(''damn'', 0)], [(''damn'', 1)]],
          [(3, True), (4, False), (5, True)])"
proof -
  have a: "\<forall>p\<in>set three_refs. fst p < length three_store"
    by (simp add: three_refs_def three_store_def)
  have v: "naive_bayes_st (sk_split_st [0, 1, 2]) (nltk_train_st damn_train)
     (nltk_classify_st damn_known damn_decide) three_store three_refs False =
     (three_store @ [[(''damn'', 1)]], [],
      Inr (([''damn''], False),
           [(''precision'', FloatArr [1]), (''recall'', FloatArr [1]),
            (''f-score'', FloatArr [1]), (''support'', IntArr [1])]))"
    by code_simp
  have w: "select_features_st [''damn''] three_store three_refs =
     Inr (three_store @ [[(''damn'', 1)], [(''damn'', 0)], [(''damn'', 1)]],
          [(3, True), (4, False), (5, True)])"
    by code_simp
  from inputs_not_mutated [OF a library_calls_frame]
  have "take (length three_store)
     (fst (naive_bayes_st (sk_split_st [0, 1, 2]) (nltk_train_st damn_train)
            (nltk_classify_st damn_known damn_decide) three_store three_refs False)) =
     three_store"
    by blast
  with v w show ?thesis by simp
qed

section \<open>The evaluator\<close>

lemma n_test_div: "nat \<lceil>(1 / 4 :: rat) * of_nat n\<rceil> = (n + 3) div 4"
proof -
  have "(1 / 4 :: rat) * of_nat n = of_int (int n) / of_int 4" by simp
  then have "\<lceil>(1 / 4 :: rat) * of_nat n\<rceil> = - (- int n div 4)"
    by (simp only: ceiling_divide_eq_div)
  also have "\<dots> = int ((n + 3) div 4)" by linarith
  finally show ?thesis by simp
qed

lemma train_test_split_sizes:
  assumes "2 \<le> length arr" and "length perm = length arr"
  shows "\<exists>trainSet testSet. train_test_split perm arr = Inr (trainSet, testSet) \<and>
           length testSet = (length arr + 3) div 4 \<and>
           length trainSet = length arr - (length arr + 3) div 4 \<and>
           testSet \<noteq> [] \<and> trainSet \<noteq> []"
proof -
  let ?n = "length arr"
  let ?t = "(?n + 3) div 4"
  have t: "1 \<le> ?t" "?t < ?n" using assms(1) by linarith+
  let ?test = "map (\<lambda>i. arr ! i) (take ?t perm)"
  let ?train = "map (\<lambda>i. arr ! i) (take (?n - ?t) (drop ?t perm))"
  have "train_test_split perm arr = Inr (?train, ?test)"
    unfolding train_test_split_def n_test_div Let_def using t by simp
  moreover have "length ?test = ?t" using t assms(2) by simp
  moreover have "length ?train = ?n - ?t" using t assms(2) by simp
  ultimately show ?thesis using t
    by (metis One_nat_def length_0_conv not_one_le_zero zero_less_diff less_numeral_extra(3))
qed

lemma tp_sum_le_true: "tp_sum y_true y_pred l \<le> count_list y_true l"
proof -
  have "length (filter (\<lambda>(t, p). t = l \<and> p = l) (zip ts ps)) \<le> count_list ts l" for ts ps
  proof (induction ts arbitrary: ps)
    case Nil
    then show ?case by simp
  next
    case (Cons t ts)
    then show ?case by (cases ps) (auto simp: le_SucI)
  qed
  then show ?thesis by (simp add: tp_sum_def)
qed

lemma tp_sum_le_pred: "tp_sum y_true y_pred l \<le> count_list y_pred l"
proof -
  have "length (filter (\<lambda>(t, p). t = l \<and> p = l) (zip ts ps)) \<le> count_list ps l" for ts ps
  proof (induction ps arbitrary: ts)
    case Nil
    then show ?case by simp
  next
    case (Cons p ps)
    then show ?case by (cases ts) (auto simp: le_SucI)
  qed
  then show ?thesis by (simp add: tp_sum_def)
qed

lemma prf_divide_unit: "0 \<le> a \<Longrightarrow> a \<le> b \<Longrightarrow> 0 \<le> prf_divide a b \<and> prf_divide a b \<le> 1"
  by (simp add: prf_divide_def)

lemma precision_unit: "0 \<le> precision_of y_true y_pred l \<and> precision_of y_true y_pred l \<le> 1"
  unfolding precision_of_def by (rule prf_divide_unit) (simp_all add: tp_sum_le_pred)

lemma recall_unit: "0 \<le> recall_of y_true y_pred l \<and> recall_of y_true y_pred l \<le> 1"
  unfolding recall_of_def by (rule prf_divide_unit) (simp_all add: tp_sum_le_true)

lemma harmonic_unit:
  fixes p r :: real
  assumes "0 \<le> p" "p \<le> 1" "0 \<le> r" "r \<le> 1"
  shows "0 \<le> prf_divide (2 * p * r) (p + r) \<and> prf_divide (2 * p * r) (p + r) \<le> 1"
proof (rule prf_divide_unit)
  show "0 \<le> 2 * p * r" using assms by simp
  have "p * r \<le> p * 1" using assms by (intro mult_left_mono) auto
  moreover have "p * r \<le> 1 * r" using assms by (intro mult_right_mono) auto
  ultimately show "2 * p * r \<le> p + r" by simp
qed

lemma fscore_unit: "0 \<le> fscore_of y_true y_pred l \<and> fscore_of y_true y_pred l \<le> 1"
  unfolding fscore_of_def Let_def
  using precision_unit [of y_true y_pred l] recall_unit [of y_true y_pred l]
  by (intro harmonic_unit) auto

lemma support_sum:
  "sum_list (map (\<lambda>l. int (count_list y_true l)) (unique_labels y_true y_pred)) =
     int (length y_true)"
proof -
  let ?ls = "unique_labels y_true y_pred"
  have d: "distinct ?ls" and s: "set y_true \<subseteq> set ?ls"
    by (auto simp: unique_labels_def)
  have "sum_list (map (\<lambda>l. int (f l)) ls) = int (sum_list (map f ls))"
    for f :: "bool \<Rightarrow> nat" and ls
    by (induction ls) auto
  then have "sum_list (map (\<lambda>l. int (count_list y_true l)) ?ls) =
          int (sum_list (map (count_list y_true) ?ls))" .
  then show ?thesis using sum_count_list_cover [OF d s] by simp
qed

lemma naive_bayes_split:
  assumes "train_test_split perm featuresets = Inr (trainSet, testSet)" and "testSet \<noteq> []"
  shows "snd (naive_bayes nb_train nb_classify perm featuresets printMetrics) =
           Inr (nb_train trainSet,
                [(''precision'', FloatArr (map (precision_of (map snd testSet)
                     (map (nb_classify (nb_train trainSet)) (map fst testSet)))
                     (unique_labels (map snd testSet)
                        (map (nb_classify (nb_train trainSet)) (map fst testSet))))),
                 (''recall'', FloatArr (map (recall_of (map snd testSet)
                     (map (nb_classify (nb_train trainSet)) (map fst testSet)))
                     (unique_labels (map snd testSet)
                        (map (nb_classify (nb_train trainSet)) (map fst testSet))))),
                 (''f-score'', FloatArr (map (fscore_of (map snd testSet)
                     (map (nb_classify (nb_train trainSet)) (map fst testSet)))
                     (unique_labels (map snd testSet)
                        (map (nb_classify (nb_train trainSet)) (map fst testSet))))),
                 (''support'',
                  if filter (\<lambda>(t, y). t = y) (zip (map snd testSet)
                       (map (nb_classify (nb_train trainSet)) (map fst testSet))) = []
                  then FloatArr (map of_int (map (\<lambda>l. int (count_list (map snd testSet) l))
                     (unique_labels (map snd testSet)
                        (map (nb_classify (nb_train trainSet)) (map fst testSet)))))
                  else IntArr (map (\<lambda>l. int (count_list (map snd testSet) l))
                     (unique_labels (map snd testSet)
                        (map (nb_classify (nb_train trainSet)) (map fst testSet)))))])"
  using assms
  by (simp add: naive_bayes_def precision_recall_fscore_support_def Let_def)

lemma naive_bayes_cases:
  "snd (naive_bayes nb_train nb_classify perm featuresets printMetrics) = Inl ValueError \<or>
   snd (naive_bayes nb_train nb_classify perm featuresets printMetrics) = Inl IndexError \<or>
   (\<exists>classifier p r f s.
      snd (naive_bayes nb_train nb_classify perm featuresets printMetrics) =
        Inr (classifier, [(''precision'', FloatArr p), (''recall'', FloatArr r),
                          (''f-score'', FloatArr f), (''support'', IntArr s)]) \<or>
      snd (naive_bayes nb_train nb_classify perm featuresets printMetrics) =
        Inr (classifier, [(''precision'', FloatArr p), (''recall'', FloatArr r),
                          (''f-score'', FloatArr f), (''support'', FloatArr (map of_int s))]))"
proof (cases "train_test_split perm featuresets")
  case (Inl e)
  then have "e = ValueError"
    by (auto simp: train_test_split_def Let_def split: if_splits)
  with Inl show ?thesis by (simp add: naive_bayes_def)
next
  case (Inr pr)
  obtain trainSet testSet where pr: "pr = (trainSet, testSet)" by (cases pr)
  show ?thesis
  proof (cases "testSet = []")
    case True
    with Inr pr show ?thesis by (simp add: naive_bayes_def Let_def)
  next
    case False
    note nb = naive_bayes_split [OF Inr [unfolded pr] False, of nb_train nb_classify printMetrics]
    show ?thesis
    proof (cases "filter (\<lambda>(t, y). t = y) (zip (map snd testSet)
                    (map (nb_classify (nb_train trainSet)) (map fst testSet))) = []")
      case True
      note eq = nb [unfolded if_P [OF True]]
      show ?thesis
        by (rule disjI2, rule disjI2, intro exI, rule disjI2, rule eq)
    next
      case False
      note eq = nb [unfolded if_not_P [OF False]]
      show ?thesis
        by (rule disjI2, rule disjI2, intro exI, rule disjI1, rule eq)
    qed
  qed
qed

lemma naive_bayes_printMetrics:
  "snd (naive_bayes nb_train nb_classify perm featuresets printMetrics) =
   snd (naive_bayes nb_train nb_classify perm featuresets False)"
  by (simp add: naive_bayes_def precision_recall_fscore_support_def Let_def
      split: sum.splits prod.splits)

text \<open>
  C6. On an input of at least two featuresets and for every permutation the split can
  draw, \<open>naive_bayes\<close> returns its metrics: every precision, recall and F-score entry lies
  in the unit interval, every support entry is a non-negative whole number, and the
  support entries sum to the size of the test subset, which the default split makes a
  quarter of the input, rounded up. The support array is an array of integers when at
  least one test item is predicted correctly; when none is, the library returns the
  same whole numbers as an array of floats.
\<close>

theorem metrics_in_range:
  assumes "2 \<le> length featuresets"
    and "distinct perm" and "set perm = {0..<length featuresets}"
  shows "\<exists>trainSet testSet classifier predictY p r f s.
           train_test_split perm featuresets = Inr (trainSet, testSet) \<and>
           length testSet = (length featuresets + 3) div 4 \<and>
           classifier = nb_train trainSet \<and>
           predictY = map (nb_classify classifier) (map fst testSet) \<and>
           snd (naive_bayes nb_train nb_classify perm featuresets printMetrics) =
             Inr (classifier,
                  [(''precision'', FloatArr p), (''recall'', FloatArr r),
                   (''f-score'', FloatArr f),
                   (''support'',
                    if filter (\<lambda>(t, y). t = y) (zip (map snd testSet) predictY) = []
                    then FloatArr (map of_int s) else IntArr s)]) \<and>
           (\<forall>x\<in>set p. 0 \<le> x \<and> x \<le> 1) \<and>
           (\<forall>x\<in>set r. 0 \<le> x \<and> x \<le> 1) \<and>
           (\<forall>x\<in>set f. 0 \<le> x \<and> x \<le> 1) \<and>
           (\<forall>x\<in>set s. 0 \<le> x) \<and>
           sum_list s = int (length testSet)"
proof -
  have "length perm = card (set perm)" using assms(2) by (simp add: distinct_card)
  then have lp: "length perm = length featuresets" using assms(3) by simp
  from train_test_split_sizes [OF assms(1) lp] obtain trainSet testSet where
    sp: "train_test_split perm featuresets = Inr (trainSet, testSet)"
      "length testSet = (length featuresets + 3) div 4" "testSet \<noteq> []"
    by blast
  let ?testY = "map snd testSet"
  let ?predictY = "map (nb_classify (nb_train trainSet)) (map fst testSet)"
  let ?labels = "unique_labels ?testY ?predictY"
  let ?p = "map (precision_of ?testY ?predictY) ?labels"
  let ?r = "map (recall_of ?testY ?predictY) ?labels"
  let ?f = "map (fscore_of ?testY ?predictY) ?labels"
  let ?s = "map (\<lambda>l. int (count_list ?testY l)) ?labels"
  have nb: "snd (naive_bayes nb_train nb_classify perm featuresets printMetrics) =
              Inr (nb_train trainSet,
                   [(''precision'', FloatArr ?p), (''recall'', FloatArr ?r),
                    (''f-score'', FloatArr ?f),
                    (''support'',
                     if filter (\<lambda>(t, y). t = y) (zip ?testY ?predictY) = []
                     then FloatArr (map of_int ?s) else IntArr ?s)])"
    by (rule naive_bayes_split [OF sp(1) sp(3)])
  have p: "\<forall>x\<in>set ?p. 0 \<le> x \<and> x \<le> 1" using precision_unit by auto
  have r: "\<forall>x\<in>set ?r. 0 \<le> x \<and> x \<le> 1" using recall_unit by auto
  have f: "\<forall>x\<in>set ?f. 0 \<le> x \<and> x \<le> 1" using fscore_unit by auto
  have s: "\<forall>x\<in>set ?s. 0 \<le> x" by auto
  have "sum_list ?s = int (length ?testY)" by (rule support_sum)
  then have t: "sum_list ?s = int (length testSet)" by simp
  show ?thesis
  proof (intro exI conjI)
    show "train_test_split perm featuresets = Inr (trainSet, testSet)" by (rule sp(1))
    show "length testSet = (length featuresets + 3) div 4" by (rule sp(2))
    show "nb_train trainSet = nb_train trainSet" by (rule refl)
    show "?predictY = map (nb_classify (nb_train trainSet)) (map fst testSet)" by (rule refl)
    show "snd (naive_bayes nb_train nb_classify perm featuresets printMetrics) =
              Inr (nb_train trainSet,
                   [(''precision'', FloatArr ?p), (''recall'', FloatArr ?r),
                    (''f-score'', FloatArr ?f),
                    (''support'',
                     if filter (\<lambda>(t, y). t = y) (zip ?testY ?predictY) = []
                     then FloatArr (map of_int ?s) else IntArr ?s)])"
      by (rule nb)
    show "\<forall>x\<in>set ?p. 0 \<le> x \<and> x \<le> 1" by (rule p)
    show "\<forall>x\<in>set ?r. 0 \<le> x \<and> x \<le> 1" by (rule r)
    show "\<forall>x\<in>set ?f. 0 \<le> x \<and> x \<le> 1" by (rule f)
    show "\<forall>x\<in>set ?s. 0 \<le> x" by (rule s)
    show "sum_list ?s = int (length testSet)" by (rule t)
  qed
qed

theorem metrics_in_range_witness:
  "snd (naive_bayes damn_train damn_classify [0, 1, 2, 3, 4, 5, 6, 7] eight_featuresets True) =
     Inr (([''damn'', ''hello''], False),
          [(''precision'', FloatArr [0, 1 / 2]), (''recall'', FloatArr [0, 1]),
           (''f-score'', FloatArr [0, 2 / 3]), (''support'', IntArr [1, 1])]) \<and>
   snd (naive_bayes damn_train damn_classify [1, 3, 0, 2, 4, 5, 6, 7] eight_featuresets True) =
     Inr (([''damn'', ''hello''], True),
          [(''precision'', FloatArr [0, 0]), (''recall'', FloatArr [0, 0]),
           (''f-score'', FloatArr [0, 0]), (''support'', FloatArr [1, 1])]) \<and>
   train_test_split [0, 1, 2, 3, 4, 5, 6, 7] eight_featuresets =
     Inr (drop 2 eight_featuresets, take 2 eight_featuresets)"
proof -
  have a: "2 \<le> length eight_featuresets" by (simp add: eight_featuresets_def)
  have b: "distinct [0, 1, 2, 3, 4, 5, 6, 7 :: nat]" by simp
  have c: "set [0, 1, 2, 3, 4, 5, 6, 7 :: nat] = {0..<length eight_featuresets}"
    by (auto simp: eight_featuresets_def)
  have v: "snd (naive_bayes damn_train damn_classify [0, 1, 2, 3, 4, 5, 6, 7]
                  eight_featuresets True) =
     Inr (([''damn'', ''hello''], False),
          [(''precision'', FloatArr [0, 1 / 2]), (''recall'', FloatArr [0, 1]),
           (''f-score'', FloatArr [0, 2 / 3]), (''support'', IntArr [1, 1])])"
    by code_simp
  have u: "snd (naive_bayes damn_train damn_classify [1, 3, 0, 2, 4, 5, 6, 7]
                  eight_featuresets True) =
     Inr (([''damn'', ''hello''], True),
          [(''precision'', FloatArr [0, 0]), (''recall'', FloatArr [0, 0]),
           (''f-score'', FloatArr [0, 0]), (''support'', FloatArr [1, 1])])"
    by code_simp
  have w: "train_test_split [0, 1, 2, 3, 4, 5, 6, 7] eight_featuresets =
     Inr (drop 2 eight_featuresets, take 2 eight_featuresets)"
    by code_simp
  from metrics_in_range [OF a b c, of damn_train damn_classify True]
  obtain trainSet testSet where
    "train_test_split [0, 1, 2, 3, 4, 5, 6, 7] eight_featuresets = Inr (trainSet, testSet)"
    "length testSet = (length eight_featuresets + 3) div 4"
    by blast
  with v u w show ?thesis by simp
qed


section \<open>The Monte Carlo validator\<close>

lemma map_add_zero: "map ((+) (0::'a::monoid_add)) xs = xs"
  by (induction xs) auto

lemma monte_carlo_once:
  assumes "snd (naive_bayes nb_train nb_classify (draw 0) featuresets False) =
             Inr (classifier, [(''precision'', FloatArr p), (''recall'', FloatArr r),
                               (''f-score'', FloatArr f), (''support'', IntArr s)])"
  shows "MonteCarloCrossValidation nb_train nb_classify draw featuresets 1 =
           ([(''average precision'', FloatArr p), (''average recall'', FloatArr r),
             (''average f-score'', FloatArr f), (''average support'', FloatArr (map of_int s))],
            Inr [(''precision'', FloatArr p), (''recall'', FloatArr r),
                 (''f-score'', FloatArr f), (''support'', FloatArr (map of_int s))])"
  using assms
  by (simp add: MonteCarloCrossValidation_def keys_def getitem_def comp_def map_add_zero)

lemma monte_carlo_once_float:
  assumes "snd (naive_bayes nb_train nb_classify (draw 0) featuresets False) =
             Inr (classifier, [(''precision'', FloatArr p), (''recall'', FloatArr r),
                               (''f-score'', FloatArr f), (''support'', FloatArr s)])"
  shows "MonteCarloCrossValidation nb_train nb_classify draw featuresets 1 =
           ([(''average precision'', FloatArr p), (''average recall'', FloatArr r),
             (''average f-score'', FloatArr f), (''average support'', FloatArr s)],
            Inr [(''precision'', FloatArr p), (''recall'', FloatArr r),
                 (''f-score'', FloatArr f), (''support'', FloatArr s)])"
  using assms
  by (simp add: MonteCarloCrossValidation_def keys_def getitem_def comp_def map_add_zero)

lemma monte_carlo_once_error:
  assumes "snd (naive_bayes nb_train nb_classify (draw 0) featuresets False) = Inl e"
  shows "MonteCarloCrossValidation nb_train nb_classify draw featuresets 1 = ([], Inl e)"
  using assms by (simp add: MonteCarloCrossValidation_def)

lemma monte_carlo_zero:
  "MonteCarloCrossValidation nb_train nb_classify draw featuresets 0 = ([], Inl ZeroDivisionError)"
  by (simp add: MonteCarloCrossValidation_def keys_def getitem_def)

lemma iadd_no_zero_division: "iadd a b \<noteq> Inl ZeroDivisionError"
  by (cases a; cases b) (auto simp: inplace_add_def split: sum.splits)

lemma iadd_finite:
  "iadd a b = Inr v \<Longrightarrow> entries a \<noteq> None \<Longrightarrow> entries b \<noteq> None \<Longrightarrow> entries v \<noteq> None"
  by (cases a; cases b) (auto simp: inplace_add_def split: sum.splits if_splits)

lemma truediv_no_zero_division: "n \<noteq> 0 \<Longrightarrow> truediv a n \<noteq> Inl ZeroDivisionError"
  by (cases a) auto

lemma truediv_finite:
  "n \<noteq> 0 \<Longrightarrow> truediv a n = Inr v \<Longrightarrow> entries a \<noteq> None \<Longrightarrow> entries v \<noteq> None"
  by (cases a) auto

lemma getitem_value: "getitem d k = Inr v \<Longrightarrow> v \<in> snd ` set d"
proof -
  assume "getitem d k = Inr v"
  then have "map_of d k = Some v" by (simp add: getitem_Inr)
  then have "(k, v) \<in> set d" by (rule map_of_SomeD)
  then show ?thesis by force
qed

lemma getitem_error: "getitem d k = Inl e \<Longrightarrow> e = KeyError"
  by (auto simp: getitem_def split: option.splits)

lemma all_finite_iff: "all_finite d \<longleftrightarrow> (\<forall>v\<in>snd ` set d. entries v \<noteq> None)"
  by (auto simp: all_finite_def list_all_iff)

lemma all_finite_setitem: "all_finite d \<Longrightarrow> entries v \<noteq> None \<Longrightarrow> all_finite (setitem d k v)"
  by (induction d) (auto simp: all_finite_def)

lemma all_finite_getitem: "all_finite d \<Longrightarrow> getitem d k = Inr v \<Longrightarrow> entries v \<noteq> None"
  using getitem_value [of d k v] by (auto simp: all_finite_iff)

lemma accumulate_loop_safe:
  assumes "all_finite metrics"
  shows "all_finite avgs \<Longrightarrow>
         accumulate_loop metrics ks avgs \<noteq> Inl ZeroDivisionError \<and>
         (\<forall>avgs'. accumulate_loop metrics ks avgs = Inr avgs' \<longrightarrow> all_finite avgs')"
proof (induction ks arbitrary: avgs)
  case Nil
  then show ?case by simp
next
  case (Cons k ks)
  show ?case
  proof (cases "getitem avgs k")
    case (Inl e)
    then show ?thesis using getitem_error [OF Inl] by simp
  next
    case a: (Inr a)
    show ?thesis
    proof (cases "getitem metrics k")
      case (Inl e)
      then show ?thesis using a getitem_error [OF Inl] by simp
    next
      case m: (Inr m)
      show ?thesis
      proof (cases "iadd a m")
        case (Inl e)
        then show ?thesis using a m iadd_no_zero_division [of a m] by auto
      next
        case (Inr v)
        have "entries v \<noteq> None"
          using iadd_finite [OF Inr] all_finite_getitem [OF Cons.prems a]
            all_finite_getitem [OF assms m] by simp
        then have "all_finite (setitem avgs k v)"
          using Cons.prems by (simp add: all_finite_setitem)
        from Cons.IH [OF this] show ?thesis using a m Inr by simp
      qed
    qed
  qed
qed

lemma naive_bayes_safe:
  "snd (naive_bayes nb_train nb_classify perm featuresets printMetrics) \<noteq> Inl ZeroDivisionError \<and>
   (\<forall>classifier metrics.
      snd (naive_bayes nb_train nb_classify perm featuresets printMetrics) =
        Inr (classifier, metrics) \<longrightarrow> all_finite metrics)"
  using naive_bayes_cases [of nb_train nb_classify perm featuresets printMetrics]
  by (auto simp: all_finite_def)

lemma repetition_loop_safe:
  "all_finite avgs \<Longrightarrow>
   repetition_loop nb_train nb_classify draw featuresets is avgs metrics \<noteq> Inl ZeroDivisionError \<and>
   (\<forall>avgs' metrics'.
      repetition_loop nb_train nb_classify draw featuresets is avgs metrics = Inr (avgs', metrics')
        \<longrightarrow> all_finite avgs')"
proof (induction "is" arbitrary: avgs metrics)
  case Nil
  then show ?case by simp
next
  case (Cons i "is")
  note nb = naive_bayes_safe [of nb_train nb_classify "draw i" featuresets False]
  show ?case
  proof (cases "snd (naive_bayes nb_train nb_classify (draw i) featuresets False)")
    case (Inl e)
    then show ?thesis using nb by auto
  next
    case (Inr pr)
    obtain classifier m where pr: "pr = (classifier, m)" by (cases pr)
    with Inr nb have fm: "all_finite m" by simp
    note acc = accumulate_loop_safe [OF fm Cons.prems, of "keys m"]
    show ?thesis
    proof (cases "accumulate_loop m (keys m) avgs")
      case (Inl e)
      then show ?thesis using Inr pr acc by auto
    next
      case a: (Inr avgs1)
      then have "all_finite avgs1" using acc by simp
      from Cons.IH [OF this, of "Some m"] show ?thesis using Inr pr a by simp
    qed
  qed
qed

lemma divide_loop_safe:
  assumes "n \<noteq> 0"
  shows "all_finite avgs \<Longrightarrow>
         divide_loop n ks avgs \<noteq> Inl ZeroDivisionError \<and>
         (\<forall>avgs'. divide_loop n ks avgs = Inr avgs' \<longrightarrow> all_finite avgs')"
proof (induction ks arbitrary: avgs)
  case Nil
  then show ?case by simp
next
  case (Cons k ks)
  show ?case
  proof (cases "getitem avgs k")
    case (Inl e)
    then show ?thesis using getitem_error [OF Inl] by simp
  next
    case a: (Inr a)
    show ?thesis
    proof (cases "truediv a n")
      case (Inl e)
      then show ?thesis using a truediv_no_zero_division [OF assms, of a] by auto
    next
      case (Inr v)
      have "entries v \<noteq> None"
        using truediv_finite [OF assms Inr] all_finite_getitem [OF Cons.prems a] by simp
      then have "all_finite (setitem avgs k v)"
        using Cons.prems by (simp add: all_finite_setitem)
      from Cons.IH [OF this] show ?thesis using a Inr by simp
    qed
  qed
qed

lemma print_loop_error: "snd (print_loop ks avgs out) \<noteq> Some ZeroDivisionError"
proof (induction ks arbitrary: out)
  case Nil
  then show ?case by simp
next
  case (Cons k ks)
  show ?case
  proof (cases "getitem avgs k")
    case (Inl e)
    then show ?thesis using getitem_error [OF Inl] by simp
  next
    case (Inr v)
    then show ?thesis using Cons by simp
  qed
qed

lemma monte_carlo_positive:
  assumes "1 \<le> n"
  shows "snd (MonteCarloCrossValidation nb_train nb_classify draw featuresets n) \<noteq>
           Inl ZeroDivisionError \<and>
         (\<forall>averages. snd (MonteCarloCrossValidation nb_train nb_classify draw featuresets n) =
            Inr averages \<longrightarrow> all_finite averages)"
proof -
  let ?init = "[(''precision'', PyInt 0), (''recall'', PyInt 0), (''f-score'', PyInt 0),
                (''support'', PyInt 0)]"
  have fi: "all_finite ?init" by (simp add: all_finite_def)
  note rep = repetition_loop_safe [OF fi, of nb_train nb_classify draw featuresets "[0..<nat n]" None]
  have n: "n \<noteq> 0" using assms by simp
  show ?thesis
  proof (cases "repetition_loop nb_train nb_classify draw featuresets [0..<nat n] ?init None")
    case (Inl e)
    then show ?thesis using rep by (auto simp: MonteCarloCrossValidation_def)
  next
    case (Inr pr)
    obtain avgs metrics where pr: "pr = (avgs, metrics)" by (cases pr)
    with Inr rep have fa: "all_finite avgs" by simp
    note dv = divide_loop_safe [OF n fa, of "keys avgs"]
    show ?thesis
    proof (cases "divide_loop n (keys avgs) avgs")
      case (Inl e)
      then show ?thesis using Inr pr dv by (auto simp: MonteCarloCrossValidation_def)
    next
      case d: (Inr avgs')
      then have fa': "all_finite avgs'" using dv by simp
      show ?thesis
      proof (cases metrics)
        case None
        then show ?thesis using Inr pr d by (simp add: MonteCarloCrossValidation_def)
      next
        case (Some m)
        obtain out err where pl: "print_loop (keys m) avgs' [] = (out, err)"
          by (cases "print_loop (keys m) avgs' []")
        then have "err \<noteq> Some ZeroDivisionError"
          using print_loop_error [of "keys m" avgs' "[]"] by simp
        then show ?thesis using Inr pr d Some pl fa'
          by (cases err) (auto simp: MonteCarloCrossValidation_def)
      qed
    qed
  qed
qed

text \<open>
  Two repetitions whose support arrays differ in element type: the first run predicts a
  test item correctly and returns integer support, the second predicts none correctly
  and returns float support, and adding the float array in place to the integer
  accumulator raises \<^verbatim>\<open>TypeError\<close>.
\<close>

lemma monte_carlo_mixed_support:
  "MonteCarloCrossValidation damn_train damn_classify mixed_draw eight_featuresets 2 =
     ([], Inl TypeError)"
  by code_simp

text \<open>
  C5. With \<open>n = 1\<close> the validator makes one call of \<open>naive_bayes\<close>. If that call raises,
  the validator raises the same exception. If it returns metrics, the validator returns
  a record with the same four keys in which the precision, recall and F-score arrays are
  the arrays of the single run, and the support array holds the same numbers as the
  support array of the single run (as floats, the single run's being integers): adding
  an array to the initial 0 and dividing it by 1 changes no entry.
\<close>

theorem monte_carlo_single_run:
  "(\<forall>e. snd (naive_bayes nb_train nb_classify (draw 0) featuresets printMetrics) = Inl e \<longrightarrow>
      snd (MonteCarloCrossValidation nb_train nb_classify draw featuresets 1) = Inl e) \<and>
   (\<forall>classifier metrics.
      snd (naive_bayes nb_train nb_classify (draw 0) featuresets printMetrics) =
        Inr (classifier, metrics) \<longrightarrow>
      (\<exists>averages.
         snd (MonteCarloCrossValidation nb_train nb_classify draw featuresets 1) = Inr averages \<and>
         keys metrics = [''precision'', ''recall'', ''f-score'', ''support''] \<and>
         keys averages = keys metrics \<and>
         getitem averages ''precision'' = getitem metrics ''precision'' \<and>
         getitem averages ''recall'' = getitem metrics ''recall'' \<and>
         getitem averages ''f-score'' = getitem metrics ''f-score'' \<and>
         (\<forall>k\<in>set (keys metrics). \<exists>a m.
            getitem averages k = Inr a \<and> getitem metrics k = Inr m \<and>
            entries a = entries m \<and> entries m \<noteq> None)))"
proof (intro conjI allI impI)
  fix e
  assume "snd (naive_bayes nb_train nb_classify (draw 0) featuresets printMetrics) = Inl e"
  then have "snd (naive_bayes nb_train nb_classify (draw 0) featuresets False) = Inl e"
    by (simp only: naive_bayes_printMetrics [of _ _ _ _ printMetrics])
  then show "snd (MonteCarloCrossValidation nb_train nb_classify draw featuresets 1) = Inl e"
    by (simp add: monte_carlo_once_error)
next
  fix classifier metrics
  assume "snd (naive_bayes nb_train nb_classify (draw 0) featuresets printMetrics) =
            Inr (classifier, metrics)"
  then have nb: "snd (naive_bayes nb_train nb_classify (draw 0) featuresets False) =
            Inr (classifier, metrics)"
    by (simp only: naive_bayes_printMetrics [of _ _ _ _ printMetrics])
  with naive_bayes_cases [of nb_train nb_classify "draw 0" featuresets False]
  obtain p r f s where
    "metrics = [(''precision'', FloatArr p), (''recall'', FloatArr r),
                (''f-score'', FloatArr f), (''support'', IntArr s)] \<or>
     metrics = [(''precision'', FloatArr p), (''recall'', FloatArr r),
                (''f-score'', FloatArr f), (''support'', FloatArr (map of_int s))]"
    by auto
  then obtain sv where
    m: "metrics = [(''precision'', FloatArr p), (''recall'', FloatArr r),
                   (''f-score'', FloatArr f), (''support'', sv)]"
    and sv: "sv = IntArr s \<or> sv = FloatArr (map of_int s)"
    by auto
  let ?avg = "[(''precision'', FloatArr p), (''recall'', FloatArr r),
               (''f-score'', FloatArr f), (''support'', FloatArr (map of_int s))]"
  have run: "snd (MonteCarloCrossValidation nb_train nb_classify draw featuresets 1) = Inr ?avg"
  proof (cases "sv = IntArr s")
    case True
    then show ?thesis
      using monte_carlo_once [of nb_train nb_classify draw featuresets classifier p r f s]
        nb [unfolded m] by simp
  next
    case False
    then have "sv = FloatArr (map of_int s)" using sv by simp
    then show ?thesis
      using monte_carlo_once_float
        [of nb_train nb_classify draw featuresets classifier p r f "map of_int s"]
        nb [unfolded m] by simp
  qed
  have k: "keys metrics = [''precision'', ''recall'', ''f-score'', ''support'']"
    "keys ?avg = keys metrics"
    by (simp_all add: m keys_def)
  have g: "getitem ?avg ''precision'' = getitem metrics ''precision''"
    "getitem ?avg ''recall'' = getitem metrics ''recall''"
    "getitem ?avg ''f-score'' = getitem metrics ''f-score''"
    by (simp_all add: m getitem_def)
  have e: "\<forall>k\<in>set (keys metrics). \<exists>a m.
            getitem ?avg k = Inr a \<and> getitem metrics k = Inr m \<and>
            entries a = entries m \<and> entries m \<noteq> None"
    using sv by (auto simp: m keys_def getitem_def)
  show "\<exists>averages.
         snd (MonteCarloCrossValidation nb_train nb_classify draw featuresets 1) = Inr averages \<and>
         keys metrics = [''precision'', ''recall'', ''f-score'', ''support''] \<and>
         keys averages = keys metrics \<and>
         getitem averages ''precision'' = getitem metrics ''precision'' \<and>
         getitem averages ''recall'' = getitem metrics ''recall'' \<and>
         getitem averages ''f-score'' = getitem metrics ''f-score'' \<and>
         (\<forall>k\<in>set (keys metrics). \<exists>a m.
            getitem averages k = Inr a \<and> getitem metrics k = Inr m \<and>
            entries a = entries m \<and> entries m \<noteq> None)"
    using run k g e by (intro exI [of _ ?avg]) simp
qed

theorem monte_carlo_single_run_witness:
  "\<exists>averages.
     snd (MonteCarloCrossValidation first_label_train first_label_classify fixed_draw
            four_featuresets 1) = Inr averages \<and>
     getitem averages ''precision'' = Inr (FloatArr [1]) \<and>
     getitem averages ''recall'' = Inr (FloatArr [1]) \<and>
     getitem averages ''f-score'' = Inr (FloatArr [1])"
proof -
  have v: "snd (naive_bayes first_label_train first_label_classify (fixed_draw 0)
                  four_featuresets True) =
     Inr (True, [(''precision'', FloatArr [1]), (''recall'', FloatArr [1]),
                 (''f-score'', FloatArr [1]), (''support'', IntArr [1])])"
    by code_simp
  from monte_carlo_single_run
    [of first_label_train first_label_classify fixed_draw four_featuresets True] v
  obtain averages where
    "snd (MonteCarloCrossValidation first_label_train first_label_classify fixed_draw
            four_featuresets 1) = Inr averages"
    "getitem averages ''precision'' =
       getitem [(''precision'', FloatArr [1]), (''recall'', FloatArr [1]),
                (''f-score'', FloatArr [1]), (''support'', IntArr [1])] ''precision''"
    "getitem averages ''recall'' =
       getitem [(''precision'', FloatArr [1]), (''recall'', FloatArr [1]),
                (''f-score'', FloatArr [1]), (''support'', IntArr [1])] ''recall''"
    "getitem averages ''f-score'' =
       getitem [(''precision'', FloatArr [1]), (''recall'', FloatArr [1]),
                (''f-score'', FloatArr [1]), (''support'', IntArr [1])] ''f-score''"
    by blast
  then show ?thesis by (intro exI [of _ averages]) (simp add: getitem_def)
qed

text \<open>
  C10. With \<open>n = 0\<close> no repetition runs, the first division is that of the initial
  integer 0 by 0, and the call raises \<^verbatim>\<open>ZeroDivisionError\<close> with nothing printed and no
  record returned. With \<open>n \<ge> 1\<close> the call never raises \<^verbatim>\<open>ZeroDivisionError\<close>, and a
  record it returns holds no array of \<^verbatim>\<open>inf\<close> or \<^verbatim>\<open>nan\<close> entries: no division by zero
  took place.
\<close>

theorem monte_carlo_division:
  "MonteCarloCrossValidation nb_train nb_classify draw featuresets 0 =
     ([], Inl ZeroDivisionError) \<and>
   (1 \<le> n \<longrightarrow>
      snd (MonteCarloCrossValidation nb_train nb_classify draw featuresets n) \<noteq>
        Inl ZeroDivisionError \<and>
      (\<forall>averages.
         snd (MonteCarloCrossValidation nb_train nb_classify draw featuresets n) = Inr averages \<longrightarrow>
         all_finite averages))"
  using monte_carlo_zero [of nb_train nb_classify draw featuresets]
    monte_carlo_positive [of n nb_train nb_classify draw featuresets]
  by blast

theorem monte_carlo_division_witness:
  "snd (MonteCarloCrossValidation first_label_train first_label_classify fixed_draw
          four_featuresets 2) =
     Inr [(''precision'', FloatArr [1]), (''recall'', FloatArr [1]),
          (''f-score'', FloatArr [1]), (''support'', FloatArr [1])] \<and>
   all_finite [(''precision'', FloatArr [1]), (''recall'', FloatArr [1]),
          (''f-score'', FloatArr [1]), (''support'', FloatArr [1])]"
proof -
  have v: "snd (MonteCarloCrossValidation first_label_train first_label_classify fixed_draw
          four_featuresets 2) =
     Inr [(''precision'', FloatArr [1]), (''recall'', FloatArr [1]),
          (''f-score'', FloatArr [1]), (''support'', FloatArr [1])]"
    by code_simp
  have "(1::int) \<le> 2" by simp
  with monte_carlo_division
    [of first_label_train first_label_classify fixed_draw four_featuresets 2] v
  show ?thesis by simp
qed

end
